theory Spec2Isabelle
  imports Complex_Main "HOL-Library.Multiset" "HOL-Library.List_Lexorder"
    "HOL-Library.Product_Lexorder"
begin

section \<open>Vendor payments analysis (Vendor\_Payments.py)\<close>

text \<open>
  The script is a pipeline of pandas calls over one DataFrame. The embedding keeps the
  functions of the source (\<open>clean_data\<close>, \<open>total_payments_by_vendor\<close>,
  \<open>detect_anomalies\<close>, \<open>payment_frequency\<close>, \<open>department_vendor_heatmap\<close>) and
  gives each pandas call they make a definition of its own, named after the call.

  How the program is modelled:
  \<^item> a Python string is the list of its Unicode code points. The tables of the Unicode
    character database that \<open>str.strip\<close> and \<open>str.title\<close> consult, the date parser
    behind \<open>pd.to_datetime\<close> and the parser of numerals behind \<open>pd.to_numeric\<close> are
    not code of the script: they are the fields of one parameter, the \<open>library\<close>, and
    the theorems hold for every library;
  \<^item> a DataFrame is its list of column labels, the dtype of each column and its list
    of rows; a row is the list of its cells, one per column. A cell is missing (NaN,
    None, NaT), a string, a number or a timestamp. Column labels are strings; the
    labels that the script looks up are ASCII literals;
  \<^item> floating-point numbers are modelled as exact reals: rounding, infinities and the
    difference between the double \<open>0.99\<close> and the fraction \<open>99/100\<close> are not
    modelled;
  \<^item> a raised exception is the value \<open>Inl e\<close>. The exceptions modelled are those of a
    missing or repeated column label, of the \<open>.str\<close> accessor on a column that holds
    no text, and of a heatmap without cells;
  \<^item> printing and plotting are represented by the value handed to \<open>print\<close> or to the
    plotting call.
\<close>

subsection \<open>Cells, dtypes and the library\<close>

type_synonym str = "nat list"

text \<open>The string of an ASCII literal of the source.\<close>

definition ascii :: "string \<Rightarrow> str" where
  "ascii s = map of_char s"

datatype timestamp = Timestamp (year: int) (month: nat) (day: nat)

datatype cell = Null | Str str | Num real | Date timestamp

text \<open>The dtype of a column: \<open>object\<close> (any cell), \<open>numeric\<close> (int64 or float64:
  numbers and NaN) or \<open>datetime64\<close> (timestamps and NaT).\<close>

datatype dtype = object | numeric | datetime64

datatype error = KeyError "string list" | AttributeError | ValueError | TypeError

text \<open>What the script takes from Python and pandas without defining it:
  \<^item> \<open>isspace\<close>, \<open>iscased\<close>, \<open>iscaseignorable\<close>: the character properties
    \<open>Py_UNICODE_ISSPACE\<close>, \<open>_PyUnicode_IsCased\<close>, \<open>_PyUnicode_IsCaseIgnorable\<close>;
  \<^item> \<open>tolower_full\<close>, \<open>totitle_full\<close>: the full case mappings of a character, which
    may give up to three characters;
  \<^item> \<open>to_datetime\<close>: \<open>pd.to_datetime(errors='coerce')\<close> on a column of a given dtype
    (it works on the whole column, for which it infers one format);
  \<^item> \<open>parse_float\<close>: the parser of one numeral, \<open>None\<close> when the text is not one;
  \<^item> \<open>epoch_ns\<close>: the nanoseconds since the epoch that stand for a timestamp.\<close>

record library =
  isspace :: "nat \<Rightarrow> bool"
  iscased :: "nat \<Rightarrow> bool"
  iscaseignorable :: "nat \<Rightarrow> bool"
  tolower_full :: "nat \<Rightarrow> str"
  totitle_full :: "nat \<Rightarrow> str"
  to_datetime :: "dtype \<Rightarrow> cell list \<Rightarrow> cell list"
  parse_float :: "str \<Rightarrow> real option"
  epoch_ns :: "timestamp \<Rightarrow> real"

subsection \<open>Python strings\<close>

text \<open>\<open>str.strip()\<close>: whitespace removed at both ends.\<close>

definition strip :: "library \<Rightarrow> str \<Rightarrow> str" where
  "strip L s = rev (dropWhile (isspace L) (rev (dropWhile (isspace L) s)))"

text \<open>\<open>str.replace(" ", "_")\<close>: U+0020 becomes U+005F.\<close>

definition replace_space :: "str \<Rightarrow> str" where
  "replace_space s = map (\<lambda>c. if c = 32 then 95 else c) s"

text \<open>\<open>str.title()\<close>, as CPython's \<open>do_title\<close> computes it: one pass over the
  characters that remembers whether the previous character was cased. A character
  after a cased one is lower-cased by \<open>lower_ucs4\<close>, any other is title-cased. Lower
  case is the full mapping, except for the capital sigma U+03A3 (931), which becomes
  the final sigma U+03C2 (962) or the sigma U+03C3 (963) by its context in the whole
  string \<open>s\<close> (\<open>handle_capital_sigma\<close>).\<close>

definition handle_capital_sigma :: "library \<Rightarrow> str \<Rightarrow> nat \<Rightarrow> nat" where
  "handle_capital_sigma L s i =
     (let preceding = dropWhile (iscaseignorable L) (rev (take i s));
          following = dropWhile (iscaseignorable L) (drop (Suc i) s);
          final_sigma = ((preceding \<noteq> [] \<and> iscased L (hd preceding)) \<and>
                         (following = [] \<or> \<not> iscased L (hd following)))
      in if final_sigma then 962 else 963)"

definition lower_ucs4 :: "library \<Rightarrow> str \<Rightarrow> nat \<Rightarrow> nat \<Rightarrow> str" where
  "lower_ucs4 L s i c = (if c = 931 then [handle_capital_sigma L s i] else tolower_full L c)"

primrec do_title :: "library \<Rightarrow> str \<Rightarrow> nat \<Rightarrow> bool \<Rightarrow> str \<Rightarrow> str" where
  "do_title L s i previous_is_cased [] = []"
| "do_title L s i previous_is_cased (c # cs) =
     (if previous_is_cased then lower_ucs4 L s i c else totitle_full L c)
       @ do_title L s (Suc i) (iscased L c) cs"

definition title :: "library \<Rightarrow> str \<Rightarrow> str" where
  "title L s = do_title L s 0 False s"

subsection \<open>Frames\<close>

record dataframe =
  columns :: "str list"
  dtypes :: "dtype list"
  rows :: "cell list list"

text \<open>A DataFrame is rectangular: every row has one cell per column.\<close>

definition wf_df :: "dataframe \<Rightarrow> bool" where
  "wf_df df \<longleftrightarrow> (\<forall>r \<in> set (rows df). length r = length (columns df))"

text \<open>Every column has a dtype, and the cells of a column are of its dtype.\<close>

definition conforms :: "dtype \<Rightarrow> cell \<Rightarrow> bool" where
  "conforms dt c =
     (case dt of
        object \<Rightarrow> True
      | numeric \<Rightarrow> (case c of Null \<Rightarrow> True | Num x \<Rightarrow> True | _ \<Rightarrow> False)
      | datetime64 \<Rightarrow> (case c of Null \<Rightarrow> True | Date t \<Rightarrow> True | _ \<Rightarrow> False))"

definition typed_df :: "dataframe \<Rightarrow> bool" where
  "typed_df df \<longleftrightarrow>
     length (dtypes df) = length (columns df) \<and>
     (\<forall>r \<in> set (rows df). list_all2 conforms (dtypes df) r)"

text \<open>The positions at which a label occurs among the columns. \<open>df[name]\<close> raises
  KeyError when there is none, is a Series when there is one, and is a DataFrame when
  the label is repeated.\<close>

definition positions :: "string \<Rightarrow> str list \<Rightarrow> nat list" where
  "positions name cols = filter (\<lambda>j. cols ! j = ascii name) [0..<length cols]"

definition getitem :: "string \<Rightarrow> dataframe \<Rightarrow> error + nat list" where
  "getitem name df =
     (case positions name (columns df) of
        [] \<Rightarrow> Inl (KeyError [name])
      | ps \<Rightarrow> Inr ps)"

definition series :: "nat \<Rightarrow> dataframe \<Rightarrow> cell list" where
  "series j df = map (\<lambda>r. r ! j) (rows df)"

text \<open>\<open>df[name] = s\<close> for a label at the single position \<open>j\<close>, with the dtype of
  the Series \<open>s\<close>.\<close>

definition setitem :: "nat \<Rightarrow> dtype \<Rightarrow> cell list \<Rightarrow> dataframe \<Rightarrow> dataframe" where
  "setitem j dt s df =
     df\<lparr>dtypes := (dtypes df)[j := dt], rows := map2 (\<lambda>r c. r[j := c]) (rows df) s\<rparr>"

text \<open>\<open>df.dropna(subset=labels)\<close>: KeyError with the labels that are missing;
  otherwise the rows that have no missing cell in any column so labelled.\<close>

definition dropna :: "string list \<Rightarrow> dataframe \<Rightarrow> error + dataframe" where
  "dropna labels df =
     (case filter (\<lambda>name. positions name (columns df) = []) labels of
        [] \<Rightarrow> Inr (df\<lparr>rows := filter
                 (\<lambda>r. \<forall>j \<in> set (concat (map (\<lambda>name. positions name (columns df)) labels)).
                        r ! j \<noteq> Null)
                 (rows df)\<rparr>)
      | missing \<Rightarrow> Inl (KeyError missing))"

text \<open>The \<open>.str\<close> accessor of a Series checks the column before any method runs, and
  raises AttributeError (``Can only use .str accessor with string values'') unless the
  column has dtype object and its inferred type is string, empty or mixed: that is,
  unless it holds nothing but missing values, or a string, or both a number and a
  timestamp.\<close>

definition can_use_str :: "dtype \<Rightarrow> cell list \<Rightarrow> bool" where
  "can_use_str dt cs \<longleftrightarrow>
     dt = object \<and>
     (list_all (\<lambda>c. c = Null) cs \<or>
      list_ex (\<lambda>c. case c of Str s \<Rightarrow> True | _ \<Rightarrow> False) cs \<or>
      (list_ex (\<lambda>c. case c of Num x \<Rightarrow> True | _ \<Rightarrow> False) cs \<and>
       list_ex (\<lambda>c. case c of Date t \<Rightarrow> True | _ \<Rightarrow> False) cs))"

text \<open>The element-wise string methods of the \<open>.str\<close> accessor: an element that is not
  a string gives NaN.\<close>

definition str_strip :: "library \<Rightarrow> cell \<Rightarrow> cell" where
  "str_strip L c = (case c of Str s \<Rightarrow> Str (strip L s) | _ \<Rightarrow> Null)"

definition str_title :: "library \<Rightarrow> cell \<Rightarrow> cell" where
  "str_title L c = (case c of Str s \<Rightarrow> Str (title L s) | _ \<Rightarrow> Null)"

text \<open>\<open>pd.to_numeric(errors='coerce')\<close> on one element of a column of dtype \<open>dt\<close>.
  A numeric column is returned as it is. In an object column a number stays, a string
  is parsed and becomes NaN when it is no numeral, and anything else becomes NaN. A
  datetime64 column is read as its int64 nanoseconds, where NaT is the least int64.\<close>

definition to_numeric :: "library \<Rightarrow> dtype \<Rightarrow> cell \<Rightarrow> cell" where
  "to_numeric L dt c =
     (case dt of
        numeric \<Rightarrow> c
      | datetime64 \<Rightarrow>
          (case c of Date t \<Rightarrow> Num (epoch_ns L t) | _ \<Rightarrow> Num (- 9223372036854775808))
      | object \<Rightarrow>
          (case c of
             Num x \<Rightarrow> Num x
           | Str s \<Rightarrow> (case parse_float L s of Some x \<Rightarrow> Num x | None \<Rightarrow> Null)
           | _ \<Rightarrow> Null))"

subsection \<open>clean\_data\<close>

text \<open>Line 26: \<open>df.columns = df.columns.str.strip().str.replace(" ", "_")\<close>.\<close>

definition normalize_columns :: "library \<Rightarrow> dataframe \<Rightarrow> dataframe" where
  "normalize_columns L df = df\<lparr>columns := map (replace_space \<circ> strip L) (columns df)\<rparr>"

text \<open>Lines 29-30: the guarded date parsing; the result is a datetime64 column. A
  repeated label makes \<open>df['RUNDATE']\<close> a DataFrame, which \<open>pd.to_datetime\<close> refuses
  with ValueError.\<close>

definition parse_rundate :: "library \<Rightarrow> dataframe \<Rightarrow> error + dataframe" where
  "parse_rundate L df =
     (if ascii ''RUNDATE'' \<in> set (columns df) then
        (case getitem ''RUNDATE'' df of
           Inl e \<Rightarrow> Inl e
         | Inr [d] \<Rightarrow>
             Inr (setitem d datetime64 (to_datetime L (dtypes df ! d) (series d df)) df)
         | Inr _ \<Rightarrow> Inl ValueError)
      else Inr df)"

text \<open>Line 33: \<open>df['VENDOR'] = df['VENDOR'].str.strip().str.title()\<close>; the result is
  an object column. A DataFrame has no \<open>.str\<close>, and the accessor refuses a column
  that holds no text: AttributeError.\<close>

definition clean_vendor :: "library \<Rightarrow> dataframe \<Rightarrow> error + dataframe" where
  "clean_vendor L df =
     (case getitem ''VENDOR'' df of
        Inl e \<Rightarrow> Inl e
      | Inr [v] \<Rightarrow>
          if can_use_str (dtypes df ! v) (series v df)
          then Inr (setitem v object (map (str_title L \<circ> str_strip L) (series v df)) df)
          else Inl AttributeError
      | Inr _ \<Rightarrow> Inl AttributeError)"

text \<open>Line 39: \<open>df['CHKSUBTOT'] = pd.to_numeric(df['CHKSUBTOT'], errors='coerce')\<close>;
  the result is a numeric column. \<open>pd.to_numeric\<close> refuses a DataFrame with
  TypeError.\<close>

definition coerce_amount :: "library \<Rightarrow> dataframe \<Rightarrow> error + dataframe" where
  "coerce_amount L df =
     (case getitem ''CHKSUBTOT'' df of
        Inl e \<Rightarrow> Inl e
      | Inr [a] \<Rightarrow>
          Inr (setitem a numeric (map (to_numeric L (dtypes df ! a)) (series a df)) df)
      | Inr _ \<Rightarrow> Inl TypeError)"

definition clean_data :: "library \<Rightarrow> dataframe \<Rightarrow> error + dataframe" where
  "clean_data L df =
     (case parse_rundate L (normalize_columns L df) of
        Inl e \<Rightarrow> Inl e
      | Inr df1 \<Rightarrow>
     (case clean_vendor L df1 of
        Inl e \<Rightarrow> Inl e
      | Inr df2 \<Rightarrow>
     (case dropna [''VENDOR'', ''CHKSUBTOT'', ''RUNDATE''] df2 of
        Inl e \<Rightarrow> Inl e
      | Inr df3 \<Rightarrow>
     (case coerce_amount L df3 of
        Inl e \<Rightarrow> Inl e
      | Inr df4 \<Rightarrow> dropna [''CHKSUBTOT''] df4))))"

subsection \<open>Labels in sorted order\<close>

text \<open>\<open>groupby\<close> and \<open>pivot_table\<close> sort their labels. Labels of one kind are ordered
  as Python orders them (numbers by value, strings code point by code point,
  timestamps by date); between kinds, numbers come before strings, then timestamps.
  Missing labels never reach the sort: both calls drop them.\<close>

fun cell_key :: "cell \<Rightarrow> nat \<times> real \<times> str \<times> int \<times> nat \<times> nat" where
  "cell_key (Num x) = (0, x, [], 0, 0, 0)"
| "cell_key (Str s) = (1, 0, s, 0, 0, 0)"
| "cell_key (Date t) = (2, 0, [], year t, month t, day t)"
| "cell_key Null = (3, 0, [], 0, 0, 0)"

instantiation cell :: linorder
begin

definition less_eq_cell :: "cell \<Rightarrow> cell \<Rightarrow> bool" where
  "less_eq_cell a b \<longleftrightarrow> cell_key a \<le> cell_key b"

definition less_cell :: "cell \<Rightarrow> cell \<Rightarrow> bool" where
  "less_cell a b \<longleftrightarrow> cell_key a < cell_key b"

instance
proof
  fix x y z :: cell
  show "(x < y) = (x \<le> y \<and> \<not> y \<le> x)"
    unfolding less_eq_cell_def less_cell_def by (rule less_le_not_le)
  show "x \<le> x"
    unfolding less_eq_cell_def by simp
  show "x \<le> y \<Longrightarrow> y \<le> z \<Longrightarrow> x \<le> z"
    unfolding less_eq_cell_def by (rule order_trans)
  show "x = y" if "x \<le> y" and "y \<le> x"
  proof -
    from that have "cell_key x = cell_key y"
      unfolding less_eq_cell_def by (rule antisym)
    then show ?thesis
      by (cases x; cases y) (auto simp: timestamp.expand)
  qed
  show "x \<le> y \<or> y \<le> x"
    unfolding less_eq_cell_def by (rule linear)
qed

end

subsection \<open>Series operations\<close>

text \<open>A Series with an index is a list of (label, value) pairs. A repeated label is
  modelled exactly only in \<open>clean_data\<close>; the functions below report it as
  ValueError, which every frame that \<open>clean_data\<close> returns avoids.\<close>

definition column :: "string \<Rightarrow> dataframe \<Rightarrow> error + nat" where
  "column name df =
     (case positions name (columns df) of
        [] \<Rightarrow> Inl (KeyError [name])
      | [j] \<Rightarrow> Inr j
      | _ \<Rightarrow> Inl ValueError)"

text \<open>The number in a cell of a float column; NaN counts as nothing in a sum.\<close>

definition number :: "cell \<Rightarrow> real" where
  "number c = (case c of Num x \<Rightarrow> x | _ \<Rightarrow> 0)"

definition nansum :: "cell list \<Rightarrow> real" where
  "nansum cs = sum_list (map number cs)"

text \<open>\<open>groupby(key)[val].sum()\<close> over (key, value) pairs: one entry per key that is
  not missing, keys in ascending order, the value the sum of the group.\<close>

definition groupby_sum :: "(cell \<times> cell) list \<Rightarrow> (cell \<times> real) list" where
  "groupby_sum kvs =
     map (\<lambda>k. (k, nansum (map snd (filter (\<lambda>kv. fst kv = k) kvs))))
       (sort (remdups (filter (\<lambda>k. k \<noteq> Null) (map fst kvs))))"

text \<open>\<open>sort_values(ascending=False)\<close>: pandas reverses the values, sorts them in
  ascending order and reverses the result. The sort is taken to be stable (numpy's
  default is not, so the order among equal values is not part of any theorem).\<close>

definition sort_values_desc :: "('k \<times> 'v::linorder) list \<Rightarrow> ('k \<times> 'v) list" where
  "sort_values_desc s = rev (sort_key snd (rev s))"

text \<open>The distinct elements in order of first appearance.\<close>

definition unique :: "'a list \<Rightarrow> 'a list" where
  "unique xs = rev (remdups (rev xs))"

text \<open>\<open>Series.value_counts()\<close>: the distinct values that are not missing, each with
  its number of occurrences, sorted by descending count.\<close>

definition value_counts :: "cell list \<Rightarrow> (cell \<times> nat) list" where
  "value_counts cs =
     sort_values_desc
       (map (\<lambda>k. (k, length (filter (\<lambda>c. c = k) cs))) (unique (filter (\<lambda>c. c \<noteq> Null) cs)))"

text \<open>\<open>Series.quantile(q)\<close> with the default linear interpolation, as numpy computes
  it: NaN is skipped; on the sorted values the virtual index \<open>q * (n - 1)\<close> is split
  into the index below it and the fraction \<open>gamma\<close>, and the result interpolates
  between that element and the next (the index clipped to the last). \<open>None\<close> is the
  NaN of an empty column.\<close>

definition numbers :: "cell list \<Rightarrow> real list" where
  "numbers cs = concat (map (\<lambda>c. case c of Num x \<Rightarrow> [x] | _ \<Rightarrow> []) cs)"

definition quantile :: "real \<Rightarrow> cell list \<Rightarrow> real option" where
  "quantile q cs =
     (let xs = sort (numbers cs); n = length xs in
      if n = 0 then None
      else
        (let virtual_index = q * real (n - 1);
             previous_index = nat \<lfloor>virtual_index\<rfloor>;
             next_index = min (previous_index + 1) (n - 1);
             gamma = virtual_index - real previous_index
         in Some (xs ! previous_index + (xs ! next_index - xs ! previous_index) * gamma)))"

text \<open>\<open>s > threshold\<close> element-wise: a comparison with NaN on either side is False.\<close>

definition gt :: "cell \<Rightarrow> real option \<Rightarrow> bool" where
  "gt c threshold = (case (c, threshold) of (Num x, Some t) \<Rightarrow> t < x | _ \<Rightarrow> False)"

subsection \<open>The analyses\<close>

text \<open>Lines 57-61. The result is the pair of what is printed (\<open>head(20)\<close>) and what
  is returned.\<close>

definition total_payments_by_vendor ::
  "dataframe \<Rightarrow> error + ((cell \<times> real) list \<times> (cell \<times> real) list)" where
  "total_payments_by_vendor df =
     (case column ''VENDOR'' df of
        Inl e \<Rightarrow> Inl e
      | Inr v \<Rightarrow>
     (case column ''CHKSUBTOT'' df of
        Inl e \<Rightarrow> Inl e
      | Inr a \<Rightarrow>
          (let vendor_totals =
                 sort_values_desc (groupby_sum (map (\<lambda>r. (r ! v, r ! a)) (rows df)))
           in Inr (take 20 vendor_totals, vendor_totals))))"

text \<open>Lines 82-89. Printed: the threshold and the number of outliers; returned: the
  frame of the outliers.\<close>

definition detect_anomalies ::
  "dataframe \<Rightarrow> error + ((real option \<times> nat) \<times> dataframe)" where
  "detect_anomalies df =
     (case column ''CHKSUBTOT'' df of
        Inl e \<Rightarrow> Inl e
      | Inr a \<Rightarrow>
          (let threshold = quantile (99 / 100) (series a df);
               outliers = df\<lparr>rows := filter (\<lambda>r. gt (r ! a) threshold) (rows df)\<rparr>
           in Inr ((threshold, length (rows outliers)), outliers)))"

text \<open>Lines 94-98.\<close>

definition payment_frequency ::
  "dataframe \<Rightarrow> error + ((cell \<times> nat) list \<times> (cell \<times> nat) list)" where
  "payment_frequency df =
     (case column ''VENDOR'' df of
        Inl e \<Rightarrow> Inl e
      | Inr v \<Rightarrow>
          (let freq = value_counts (series v df)
           in Inr (take 20 freq, freq)))"

text \<open>\<open>pivot_table(index, columns, values, aggfunc='sum', fill_value=0)\<close>: the rows
  with a missing index or column label are left out; row and column labels are
  sorted; a cell is the sum of its group, and \<open>fill_value\<close> where the group is empty.\<close>

record pivot =
  row_labels :: "cell list"
  column_labels :: "cell list"
  cells :: "real list list"

definition pivot_table :: "nat \<Rightarrow> nat \<Rightarrow> nat \<Rightarrow> real \<Rightarrow> cell list list \<Rightarrow> pivot" where
  "pivot_table i c v fill_value rs =
     (let present = filter (\<lambda>r. r ! i \<noteq> Null \<and> r ! c \<noteq> Null) rs;
          row_keys = sort (remdups (map (\<lambda>r. r ! i) present));
          column_keys = sort (remdups (map (\<lambda>r. r ! c) present))
      in \<lparr>row_labels = row_keys, column_labels = column_keys,
          cells = map (\<lambda>k. map (\<lambda>l.
                    (case filter (\<lambda>r. r ! i = k \<and> r ! c = l) present of
                       [] \<Rightarrow> fill_value
                     | g \<Rightarrow> nansum (map (\<lambda>r. r ! v) g))) column_keys) row_keys\<rparr>)"

text \<open>\<open>DataFrame.head(n)\<close> of a pivot: its first \<open>n\<close> rows.\<close>

definition head :: "nat \<Rightarrow> pivot \<Rightarrow> pivot" where
  "head n p = p\<lparr>row_labels := take n (row_labels p), cells := take n (cells p)\<rparr>"

text \<open>\<open>sns.heatmap(data, annot=True)\<close> draws the table it is given. It takes the
  least and the greatest cell for its colour scale, and raises ValueError (``zero-size
  array to reduction operation'') when the table has no cell.\<close>

definition sns_heatmap :: "pivot \<Rightarrow> error + pivot" where
  "sns_heatmap p =
     (if row_labels p = [] \<or> column_labels p = [] then Inl ValueError else Inr p)"

text \<open>Lines 103-113. The result is the table that was drawn, or \<open>None\<close> when
  nothing is drawn.\<close>

definition department_vendor_heatmap :: "dataframe \<Rightarrow> error + pivot option" where
  "department_vendor_heatmap df =
     (if ascii ''DEPARTMENT'' \<in> set (columns df) then
        (case column ''CHKSUBTOT'' df of
           Inl e \<Rightarrow> Inl e
         | Inr a \<Rightarrow>
        (case column ''VENDOR'' df of
           Inl e \<Rightarrow> Inl e
         | Inr v \<Rightarrow>
        (case column ''DEPARTMENT'' df of
           Inl e \<Rightarrow> Inl e
         | Inr d \<Rightarrow>
        (case sns_heatmap (head 20 (pivot_table v d a 0 (rows df))) of
           Inl e \<Rightarrow> Inl e
         | Inr drawn \<Rightarrow> Inr (Some drawn)))))
      else Inr None)"

text \<open>A label that names exactly one column, and its position.\<close>

definition position :: "string \<Rightarrow> dataframe \<Rightarrow> nat option" where
  "position name df = (case positions name (columns df) of [j] \<Rightarrow> Some j | _ \<Rightarrow> None)"

text \<open>The invariants of a cleaned table that the analyses rely on: rectangular, the
  three required columns present once, every vendor a string, every amount a number
  and every run date a timestamp. Every table that \<open>clean_data\<close> returns on a
  typed rectangular table has them (lemma \<open>clean_data_cleaned\<close> below).\<close>

definition cleaned :: "dataframe \<Rightarrow> bool" where
  "cleaned df \<longleftrightarrow>
     (case (position ''VENDOR'' df, position ''CHKSUBTOT'' df, position ''RUNDATE'' df) of
        (Some v, Some a, Some d) \<Rightarrow>
          wf_df df \<and>
          (\<forall>r \<in> set (rows df).
             (case r ! v of Str s \<Rightarrow> True | _ \<Rightarrow> False) \<and>
             (case r ! a of Num x \<Rightarrow> True | _ \<Rightarrow> False) \<and>
             (case r ! d of Date t \<Rightarrow> True | _ \<Rightarrow> False))
      | _ \<Rightarrow> False)"

subsection \<open>Hypotheses on the library\<close>

text \<open>What the proofs need of \<open>pd.to_datetime(errors='coerce')\<close>: the result has the
  length of the column, every element of it is a timestamp or NaT, and a datetime64
  column comes back unchanged.\<close>

definition datetime_column :: "library \<Rightarrow> bool" where
  "datetime_column L \<longleftrightarrow>
     (\<forall>dt cs. length (to_datetime L dt cs) = length cs \<and>
           (\<forall>c \<in> set (to_datetime L dt cs). conforms datetime64 c) \<and>
           ((\<forall>c \<in> set cs. conforms datetime64 c) \<longrightarrow> to_datetime L datetime64 cs = cs))"

text \<open>The rows of the Unicode character database for ASCII (code points below 128):
  whitespace is 9..13, 28..31 and the space; the cased characters are the letters; the
  case mappings move a letter by 32 and leave every other character as it is.\<close>

definition ascii_isspace :: "nat \<Rightarrow> bool" where
  "ascii_isspace c \<longleftrightarrow> (9 \<le> c \<and> c \<le> 13) \<or> (28 \<le> c \<and> c \<le> 32)"

definition ascii_iscased :: "nat \<Rightarrow> bool" where
  "ascii_iscased c \<longleftrightarrow> (65 \<le> c \<and> c \<le> 90) \<or> (97 \<le> c \<and> c \<le> 122)"

definition ascii_lower :: "nat \<Rightarrow> nat" where
  "ascii_lower c = (if 65 \<le> c \<and> c \<le> 90 then c + 32 else c)"

definition ascii_upper :: "nat \<Rightarrow> nat" where
  "ascii_upper c = (if 97 \<le> c \<and> c \<le> 122 then c - 32 else c)"

text \<open>A library whose character tables have these rows, as Python's have.\<close>

definition ascii_casing :: "library \<Rightarrow> bool" where
  "ascii_casing L \<longleftrightarrow>
     (\<forall>c < 128. isspace L c = ascii_isspace c \<and> iscased L c = ascii_iscased c \<and>
                 tolower_full L c = [ascii_lower c] \<and> totitle_full L c = [ascii_upper c])"

definition is_ascii :: "str \<Rightarrow> bool" where
  "is_ascii s \<longleftrightarrow> list_all (\<lambda>c. c < 128) s"

definition ascii_cell :: "cell \<Rightarrow> bool" where
  "ascii_cell c = (case c of Str s \<Rightarrow> is_ascii s | _ \<Rightarrow> True)"

text \<open>\<open>str.strip\<close> and \<open>str.title\<close> on an ASCII string, by those rows alone.\<close>

definition ascii_strip :: "str \<Rightarrow> str" where
  "ascii_strip s = rev (dropWhile ascii_isspace (rev (dropWhile ascii_isspace s)))"

primrec ascii_title_from :: "bool \<Rightarrow> str \<Rightarrow> str" where
  "ascii_title_from previous_is_cased [] = []"
| "ascii_title_from previous_is_cased (c # cs) =
     (if previous_is_cased then ascii_lower c else ascii_upper c)
       # ascii_title_from (ascii_iscased c) cs"

subsection \<open>A sample library\<close>

text \<open>The theorems hold for every library. To run the model on a concrete table, this
  instance holds a fragment of what Python and pandas accept: the character rows of
  ASCII, of the whitespace U+0085 and U+00A0, of the letters U+00C9 and U+00E9, of the
  capital I with dot U+0130 (304), whose lower case is the two characters \<open>i\<close> and
  U+0307, and of the combining dot U+0307 (775); ISO dates \<open>YYYY-MM-DD\<close>; plain decimal
  numerals. Other characters are given no property and other texts do not parse, so
  the examples stay inside the fragment.\<close>

definition digits_value :: "str \<Rightarrow> nat" where
  "digits_value s = foldl (\<lambda>n c. 10 * n + (c - 48)) 0 s"

definition all_digits :: "str \<Rightarrow> bool" where
  "all_digits s \<longleftrightarrow> s \<noteq> [] \<and> list_all (\<lambda>c. 48 \<le> c \<and> c \<le> 57) s"

definition unsigned_decimal :: "str \<Rightarrow> real option" where
  "unsigned_decimal s =
     (let whole = takeWhile (\<lambda>c. c \<noteq> 46) s;
          rest = dropWhile (\<lambda>c. c \<noteq> 46) s
      in if rest = [] then
           (if all_digits whole then Some (real (digits_value whole)) else None)
         else if all_digits whole \<and> all_digits (tl rest) then
           Some (real (digits_value whole) + real (digits_value (tl rest)) / 10 ^ length (tl rest))
         else None)"

definition decimal_literal :: "str \<Rightarrow> real option" where
  "decimal_literal s =
     (case s of
        [] \<Rightarrow> None
      | c # cs \<Rightarrow>
          if c = 45 then map_option uminus (unsigned_decimal cs)
          else unsigned_decimal s)"

definition days_in_month :: "nat \<Rightarrow> nat \<Rightarrow> nat" where
  "days_in_month y m =
     (if m = 2 then (if y mod 4 = 0 \<and> (y mod 100 \<noteq> 0 \<or> y mod 400 = 0) then 29 else 28)
      else if m \<in> {4, 6, 9, 11} then 30 else 31)"

definition iso_date :: "str \<Rightarrow> timestamp option" where
  "iso_date s =
     (if length s = 10 \<and> s ! 4 = 45 \<and> s ! 7 = 45 \<and>
         all_digits (take 4 s) \<and> all_digits (take 2 (drop 5 s)) \<and> all_digits (drop 8 s) \<and>
         1 \<le> digits_value (take 2 (drop 5 s)) \<and> digits_value (take 2 (drop 5 s)) \<le> 12 \<and>
         1 \<le> digits_value (drop 8 s) \<and>
         digits_value (drop 8 s)
           \<le> days_in_month (digits_value (take 4 s)) (digits_value (take 2 (drop 5 s)))
      then Some (Timestamp (int (digits_value (take 4 s))) (digits_value (take 2 (drop 5 s)))
                   (digits_value (drop 8 s)))
      else None)"

definition iso_to_datetime :: "dtype \<Rightarrow> cell list \<Rightarrow> cell list" where
  "iso_to_datetime dt cs =
     (if dt = datetime64 then map (\<lambda>c. case c of Date t \<Rightarrow> Date t | _ \<Rightarrow> Null) cs
      else map (\<lambda>c. case c of
                 Date t \<Rightarrow> Date t
               | Str s \<Rightarrow> (case iso_date s of Some t \<Rightarrow> Date t | None \<Rightarrow> Null)
               | _ \<Rightarrow> Null) cs)"

text \<open>The days from 1970-01-01 to a date of the proleptic Gregorian calendar.\<close>

definition days_from_civil :: "int \<Rightarrow> int \<Rightarrow> int \<Rightarrow> int" where
  "days_from_civil y m d =
     (let y' = (if m \<le> 2 then y - 1 else y);
          era = y' div 400;
          yoe = y' - era * 400;
          mp = (m + 9) mod 12;
          doy = (153 * mp + 2) div 5 + d - 1;
          doe = yoe * 365 + yoe div 4 - yoe div 100 + doy
      in era * 146097 + doe - 719468)"

definition sample :: library where
  "sample =
     \<lparr>isspace = (\<lambda>c. ascii_isspace c \<or> c = 133 \<or> c = 160),
      iscased = (\<lambda>c. ascii_iscased c \<or> c = 201 \<or> c = 233 \<or> c = 304),
      iscaseignorable = (\<lambda>c. c \<in> {39, 46, 58, 94, 96, 775}),
      tolower_full = (\<lambda>c. if c = 304 then [105, 775] else if c = 201 then [233]
                          else [ascii_lower c]),
      totitle_full = (\<lambda>c. if c = 233 then [201] else [ascii_upper c]),
      to_datetime = iso_to_datetime,
      parse_float = decimal_literal,
      epoch_ns = (\<lambda>t. real_of_int
                   (days_from_civil (year t) (int (month t)) (int (day t)) * 86400000000000))\<rparr>"

subsection \<open>Notions of the spec\<close>

text \<open>Trimming, by counting: the whitespace characters at the start and at the end
  are cut off.\<close>

definition spec_trim :: "library \<Rightarrow> str \<Rightarrow> str" where
  "spec_trim L s =
     (let n = length (takeWhile (isspace L) s);
          m = length (takeWhile (isspace L) (rev s))
      in take (length s - n - m) (drop n s))"

text \<open>Title case, in the spec's words ``first letter of each word capitalized'', a
  word being a run of cased characters: the character at index \<open>i\<close> is inside a word
  when the character before it is cased, and is then lower-cased; otherwise it starts
  a word or stands between words, and is title-cased.\<close>

definition spec_title_case :: "library \<Rightarrow> str \<Rightarrow> str" where
  "spec_title_case L s =
     concat (map (\<lambda>i. if 0 < i \<and> iscased L (s ! (i - 1))
                       then lower_ucs4 L s i (s ! i) else totitle_full L (s ! i))
               [0..<length s])"

text \<open>Claim C1 in its own words: the vendor, the amount and the run date of the raw
  row are not null, and the amount is numeric after coercion.\<close>

definition spec_required_fields :: "library \<Rightarrow> dtype \<Rightarrow> nat \<Rightarrow> nat \<Rightarrow> nat \<Rightarrow> cell list \<Rightarrow> bool" where
  "spec_required_fields L amount_dtype v a d r \<longleftrightarrow>
     r ! v \<noteq> Null \<and> r ! a \<noteq> Null \<and> r ! d \<noteq> Null \<and> to_numeric L amount_dtype (r ! a) \<noteq> Null"

text \<open>What decides survival in the code. For a raw row \<open>r\<close> and the element \<open>t\<close> that
  \<open>to_datetime\<close> made of its run date: the vendor is a string, the amount is not
  null, \<open>t\<close> is not null, and the amount is numeric after coercion.\<close>

definition survives :: "library \<Rightarrow> dtype \<Rightarrow> nat \<Rightarrow> nat \<Rightarrow> cell list \<times> cell \<Rightarrow> bool" where
  "survives L amount_dtype v a rt \<longleftrightarrow>
     (case fst rt ! v of Str s \<Rightarrow> True | _ \<Rightarrow> False) \<and> fst rt ! a \<noteq> Null \<and> snd rt \<noteq> Null \<and>
     to_numeric L amount_dtype (fst rt ! a) \<noteq> Null"

text \<open>The cleaned form of a surviving row: the parsed date, the trimmed and
  title-cased vendor, the coerced amount; every other cell as it was.\<close>

definition cleaned_row :: "library \<Rightarrow> dtype \<Rightarrow> nat \<Rightarrow> nat \<Rightarrow> nat \<Rightarrow> cell list \<times> cell \<Rightarrow> cell list" where
  "cleaned_row L amount_dtype v a d rt =
     (fst rt)[d := snd rt, v := str_title L (str_strip L (fst rt ! v)),
              a := to_numeric L amount_dtype (fst rt ! a)]"

text \<open>Following the spec's words, the \<open>p\<close>-th percentile by linear interpolation
  between order statistics: with the values in ascending order and
  \<open>h = p / 100 * (n - 1)\<close>, the value at rank \<open>\<lfloor>h\<rfloor>\<close> plus the fraction \<open>h - \<lfloor>h\<rfloor>\<close> of
  the step to the value at rank \<open>\<lceil>h\<rceil>\<close>.\<close>

definition spec_percentile :: "real \<Rightarrow> real list \<Rightarrow> real" where
  "spec_percentile p xs =
     (let s = sort xs; h = p / 100 * real (length xs - 1)
      in s ! nat \<lfloor>h\<rfloor> + (h - of_int \<lfloor>h\<rfloor>) * (s ! nat \<lceil>h\<rceil> - s ! nat \<lfloor>h\<rfloor>))"

text \<open>A string with no whitespace at either end.\<close>

definition stripped :: "library \<Rightarrow> str \<Rightarrow> bool" where
  "stripped L s \<longleftrightarrow> s = [] \<or> (\<not> isspace L (hd s) \<and> \<not> isspace L (last s))"

subsection \<open>Example tables\<close>

definition example_cleaned :: dataframe where
  "example_cleaned =
     \<lparr>columns = [ascii ''VENDOR'', ascii ''CHKSUBTOT'', ascii ''RUNDATE''],
      dtypes = [object, numeric, datetime64],
      rows = [[Str (ascii ''X''), Num 100, Date (Timestamp 2024 1 15)],
              [Str (ascii ''Acme Corp''), Num 50, Date (Timestamp 2024 1 20)],
              [Str (ascii ''X''), Num 200, Date (Timestamp 2024 2 15)]]\<rparr>"

definition example_no_rundate :: dataframe where
  "example_no_rundate =
     \<lparr>columns = [ascii ''VENDOR'', ascii '' CHKSUBTOT''],
      dtypes = [object, numeric],
      rows = [[Str (ascii ''x''), Num 100]]\<rparr>"

text \<open>A raw table as \<open>read_csv\<close> may give it: labels with stray spaces, amounts and
  dates as text, a vendor column that holds text, a number and a missing value.\<close>

definition example_raw :: dataframe where
  "example_raw =
     \<lparr>columns = [ascii '' VENDOR'', ascii ''CHKSUBTOT '', ascii ''RUNDATE'', ascii ''CHECK NO''],
      dtypes = [object, object, object, numeric],
      rows = [[Str (ascii '' acme corp ''), Str (ascii ''100.50''), Str (ascii ''2024-01-15''), Num 1],
              [Str (ascii ''x''), Str (ascii ''N/A''), Str (ascii ''2024-01-16''), Num 2],
              [Null, Num 7, Str (ascii ''2024-01-17''), Num 3],
              [Str (ascii ''x''), Num 200, Str (ascii ''not a date''), Num 4],
              [Num 3, Num 5, Str (ascii ''2024-01-18''), Num 5],
              [Str (ascii ''b&b  SUPPLY''), Num 300, Str (ascii ''2024-02-01''), Null]]\<rparr>"

definition example_raw_cleaned :: dataframe where
  "example_raw_cleaned =
     \<lparr>columns = [ascii ''VENDOR'', ascii ''CHKSUBTOT'', ascii ''RUNDATE'', ascii ''CHECK_NO''],
      dtypes = [object, numeric, datetime64, numeric],
      rows = [[Str (ascii ''Acme Corp''), Num (201 / 2), Date (Timestamp 2024 1 15), Num 1],
              [Str (ascii ''B&B  Supply''), Num 300, Date (Timestamp 2024 2 1), Null]]\<rparr>"

text \<open>A vendor column that holds a name and a number.\<close>

definition example_vendor_number :: dataframe where
  "example_vendor_number =
     \<lparr>columns = [ascii ''VENDOR'', ascii ''CHKSUBTOT'', ascii ''RUNDATE''],
      dtypes = [object, numeric, object],
      rows = [[Str (ascii ''Acme Corp''), Num 10, Str (ascii ''2024-01-17'')],
              [Num 3, Num 5, Str (ascii ''2024-01-18'')]]\<rparr>"

text \<open>A vendor whose name has the capital I with dot, U+0130, between \<open>a\<close> and \<open>b\<close>;
  the table cleaned once; the table cleaned twice.\<close>

definition example_dotted :: dataframe where
  "example_dotted =
     \<lparr>columns = [ascii ''VENDOR'', ascii ''CHKSUBTOT'', ascii ''RUNDATE''],
      dtypes = [object, numeric, object],
      rows = [[Str [97, 304, 98], Num 10, Str (ascii ''2024-01-17'')]]\<rparr>"

definition example_dotted_once :: dataframe where
  "example_dotted_once =
     \<lparr>columns = [ascii ''VENDOR'', ascii ''CHKSUBTOT'', ascii ''RUNDATE''],
      dtypes = [object, numeric, datetime64],
      rows = [[Str [65, 105, 775, 98], Num 10, Date (Timestamp 2024 1 17)]]\<rparr>"

definition example_dotted_twice :: dataframe where
  "example_dotted_twice =
     \<lparr>columns = [ascii ''VENDOR'', ascii ''CHKSUBTOT'', ascii ''RUNDATE''],
      dtypes = [object, numeric, datetime64],
      rows = [[Str [65, 105, 775, 66], Num 10, Date (Timestamp 2024 1 17)]]\<rparr>"

definition example_eleven :: dataframe where
  "example_eleven =
     \<lparr>columns = [ascii ''VENDOR'', ascii ''CHKSUBTOT'', ascii ''RUNDATE''],
      dtypes = [object, numeric, datetime64],
      rows = map (\<lambda>i. [Str (ascii ''V''), Num (real i), Date (Timestamp 2024 1 1)]) [1..<12]\<rparr>"





section \<open>Proofs\<close>

subsection \<open>Trimming\<close>

lemma last_dropWhile: "dropWhile P xs \<noteq> [] \<Longrightarrow> last (dropWhile P xs) = last xs"
  by (induction xs) (auto split: if_splits)

lemma strip_stripped: "stripped L s \<Longrightarrow> strip L s = s"
proof (cases "s = []")
  case True
  then show ?thesis by (simp add: strip_def)
next
  case False
  assume "stripped L s"
  with False have h: "\<not> isspace L (hd s)" and l: "\<not> isspace L (last s)"
    by (auto simp: stripped_def)
  from False h have 1: "dropWhile (isspace L) s = s"
    by (cases s) auto
  from False l have "\<not> isspace L (hd (rev s))"
    by (simp add: hd_rev)
  with False have 2: "dropWhile (isspace L) (rev s) = rev s"
    by (cases "rev s") auto
  show ?thesis by (simp add: strip_def 1 2)
qed

lemma stripped_strip: "stripped L (strip L s)"
proof -
  let ?u = "dropWhile (isspace L) s"
  let ?w = "dropWhile (isspace L) (rev ?u)"
  show ?thesis
  proof (cases "?w = []")
    case True
    then show ?thesis by (simp add: strip_def stripped_def)
  next
    case False
    then have hw: "\<not> isspace L (hd ?w)"
      by (simp add: hd_dropWhile)
    from False have "last ?w = last (rev ?u)"
      by (rule last_dropWhile)
    moreover have u: "?u \<noteq> []"
    proof
      assume e: "?u = []"
      have "?w = []" unfolding e by simp
      with False show False by simp
    qed
    ultimately have "last ?w = hd ?u"
      by (simp add: last_rev)
    moreover from u have "\<not> isspace L (hd ?u)"
      by (simp add: hd_dropWhile)
    ultimately have lw: "\<not> isspace L (last ?w)" by simp
    from False hw lw show ?thesis
      by (simp add: strip_def stripped_def hd_rev last_rev)
  qed
qed

lemma strip_strip: "strip L (strip L s) = strip L s"
  by (rule strip_stripped) (rule stripped_strip)

lemma dropWhile_eq_drop: "dropWhile P xs = drop (length (takeWhile P xs)) xs"
  by (induction xs) auto

text \<open>\<open>str.strip\<close> cuts off exactly the whitespace counted at the two ends.\<close>

lemma strip_spec_trim: "strip L s = spec_trim L s"
proof -
  let ?P = "isspace L"
  let ?n = "length (takeWhile ?P s)"
  let ?m = "length (takeWhile ?P (rev s))"
  let ?u = "dropWhile ?P s"
  have u: "?u = drop ?n s" by (rule dropWhile_eq_drop)
  show ?thesis
  proof (cases "?u = []")
    case True
    then have 1: "strip L s = []"
      by (simp only: strip_def rev.simps dropWhile.simps)
    from True have "drop ?n s = []" by (simp only: u [symmetric])
    then have "spec_trim L s = []"
      by (simp only: spec_trim_def Let_def take_Nil)
    with 1 show ?thesis by simp
  next
    case False
    then have h: "hd ?u \<in> set ?u" and nh: "\<not> ?P (hd ?u)"
      by (simp_all add: hd_dropWhile)
    have s: "s = takeWhile ?P s @ ?u" by simp
    then have "rev s = rev ?u @ rev (takeWhile ?P s)"
      by (metis rev_append)
    moreover from h have "hd ?u \<in> set (rev ?u)" by simp
    ultimately have "takeWhile ?P (rev s) = takeWhile ?P (rev ?u)"
      using nh by (metis takeWhile_append1)
    then have m: "dropWhile ?P (rev ?u) = drop ?m (rev ?u)"
      by (simp add: dropWhile_eq_drop [of ?P "rev ?u"])
    have "rev (drop ?m (rev ?u)) = take (length ?u - ?m) ?u"
      by (simp add: rev_drop)
    also have "\<dots> = take (length s - ?n - ?m) (drop ?n s)"
      by (simp add: u)
    finally show ?thesis
      by (simp add: strip_def spec_trim_def Let_def m)
  qed
qed


subsection \<open>Title case\<close>

lemma do_title_drop:
  "do_title L s i (0 < i \<and> iscased L (s ! (i - 1))) (drop i s) =
   concat (map (\<lambda>j. if 0 < j \<and> iscased L (s ! (j - 1))
                     then lower_ucs4 L s j (s ! j) else totitle_full L (s ! j))
             [i..<length s])"
proof (induction "length s - i" arbitrary: i)
  case 0
  then show ?case by simp
next
  case (Suc n)
  then have i: "i < length s" by simp
  from Suc have n: "n = length s - Suc i" by simp
  have d: "drop i s = s ! i # drop (Suc i) s"
    using i by (simp add: Cons_nth_drop_Suc)
  have u: "[i..<length s] = i # [Suc i..<length s]"
    using i by (simp add: upt_conv_Cons)
  have p: "iscased L (s ! i) = (0 < Suc i \<and> iscased L (s ! (Suc i - 1)))" by simp
  show ?case
    unfolding d u by (simp only: do_title.simps list.map concat.simps p Suc.hyps(1) [OF n])
qed

text \<open>\<open>str.title\<close> computes the title case of the spec.\<close>

lemma title_spec_title_case: "title L s = spec_title_case L s"
  using do_title_drop [of L s 0] by (simp add: title_def spec_title_case_def)

subsection \<open>ASCII strings\<close>

lemma ascii_casingD:
  assumes "ascii_casing L" and "c < 128"
  shows "isspace L c = ascii_isspace c" "iscased L c = ascii_iscased c"
    "tolower_full L c = [ascii_lower c]" "totitle_full L c = [ascii_upper c]"
  using assms unfolding ascii_casing_def by blast+

lemma isspace_32: "ascii_casing L \<Longrightarrow> isspace L 32"
  by (simp add: ascii_casingD(1) ascii_isspace_def)

lemma is_ascii_mem: "is_ascii s \<Longrightarrow> c \<in> set s \<Longrightarrow> c < 128"
  by (simp add: is_ascii_def list_all_iff)

lemma is_ascii_dropWhile: "is_ascii s \<Longrightarrow> is_ascii (dropWhile P s)"
  by (auto simp: is_ascii_def list_all_iff dest: set_dropWhileD)

lemma is_ascii_rev: "is_ascii (rev s) = is_ascii s"
  by (simp add: is_ascii_def list_all_iff)

lemma is_ascii_strip: "is_ascii s \<Longrightarrow> is_ascii (strip L s)"
  by (simp add: strip_def is_ascii_rev is_ascii_dropWhile)

lemma ascii_lower_lt: "c < 128 \<Longrightarrow> ascii_lower c < 128"
  and ascii_upper_lt: "c < 128 \<Longrightarrow> ascii_upper c < 128"
  by (auto simp: ascii_lower_def ascii_upper_def)

lemma is_ascii_title_from: "is_ascii s \<Longrightarrow> is_ascii (ascii_title_from p s)"
  by (induction s arbitrary: p) (auto simp: is_ascii_def ascii_lower_lt ascii_upper_lt)

lemma do_title_ascii:
  assumes "ascii_casing L"
  shows "is_ascii cs \<Longrightarrow> do_title L s i p cs = ascii_title_from p cs"
proof (induction cs arbitrary: i p)
  case Nil
  then show ?case by simp
next
  case (Cons c cs)
  then have c: "c < 128" and cs: "is_ascii cs"
    by (simp_all add: is_ascii_def)
  from c have "c \<noteq> 931" by simp
  then have "lower_ucs4 L s i c = [ascii_lower c]"
    by (simp add: lower_ucs4_def ascii_casingD(3) [OF assms c])
  then show ?case
    by (simp add: Cons.IH [OF cs] ascii_casingD(2,4) [OF assms c])
qed

lemma title_ascii: "ascii_casing L \<Longrightarrow> is_ascii s \<Longrightarrow> title L s = ascii_title_from False s"
  by (simp add: title_def do_title_ascii)

lemma strip_ascii:
  assumes "ascii_casing L" and "is_ascii s"
  shows "strip L s = ascii_strip s"
proof -
  have 1: "dropWhile (isspace L) t = dropWhile ascii_isspace t" if "is_ascii t" for t
    using that by (intro dropWhile_cong refl) (simp add: ascii_casingD(1) [OF assms(1)] is_ascii_mem)
  have "is_ascii (rev (dropWhile ascii_isspace s))"
    using assms(2) by (simp add: is_ascii_rev is_ascii_dropWhile)
  then show ?thesis
    by (simp add: strip_def ascii_strip_def 1 [OF assms(2)] 1)
qed

lemma ascii_iscased_upper: "ascii_iscased (ascii_upper c) = ascii_iscased c"
  and ascii_iscased_lower: "ascii_iscased (ascii_lower c) = ascii_iscased c"
  and ascii_isspace_upper: "ascii_isspace (ascii_upper c) = ascii_isspace c"
  and ascii_isspace_lower: "ascii_isspace (ascii_lower c) = ascii_isspace c"
  and ascii_upper_upper: "ascii_upper (ascii_upper c) = ascii_upper c"
  and ascii_lower_lower: "ascii_lower (ascii_lower c) = ascii_lower c"
  by (auto simp: ascii_iscased_def ascii_isspace_def ascii_upper_def ascii_lower_def)

lemma ascii_title_from_idem: "ascii_title_from p (ascii_title_from p s) = ascii_title_from p s"
  by (induction s arbitrary: p)
    (simp_all add: ascii_upper_upper ascii_lower_lower ascii_iscased_upper ascii_iscased_lower)

lemma isspace_ascii_title_from:
  "map ascii_isspace (ascii_title_from p s) = map ascii_isspace s"
  by (induction s arbitrary: p) (simp_all add: ascii_isspace_upper ascii_isspace_lower)

lemma length_ascii_title_from: "length (ascii_title_from p s) = length s"
  by (induction s arbitrary: p) simp_all

lemma stripped_map:
  assumes "stripped L s" and "length t = length s" and "map (isspace L) t = map (isspace L) s"
  shows "stripped L t"
proof (cases "s = []")
  case True
  with assms(2) show ?thesis by (simp add: stripped_def)
next
  case False
  with assms(2) have t: "t \<noteq> []" by auto
  from assms(3) have "hd (map (isspace L) t) = hd (map (isspace L) s)"
    "last (map (isspace L) t) = last (map (isspace L) s)"
    by simp_all
  with False t have "isspace L (hd t) = isspace L (hd s)" "isspace L (last t) = isspace L (last s)"
    by (simp_all add: hd_map last_map)
  with assms(1) False t show ?thesis by (simp add: stripped_def)
qed

text \<open>On an ASCII string, to trim and title-case a second time changes nothing.\<close>

lemma title_strip_idem_ascii:
  assumes "ascii_casing L" and "is_ascii s"
  shows "title L (strip L (title L (strip L s))) = title L (strip L s)"
proof -
  let ?t = "strip L s"
  let ?t' = "ascii_title_from False ?t"
  have a: "is_ascii ?t" using assms(2) by (rule is_ascii_strip)
  then have a': "is_ascii ?t'" by (rule is_ascii_title_from)
  have t': "title L ?t = ?t'" using assms(1) a by (rule title_ascii)
  have sp: "map (isspace L) u = map ascii_isspace u" if "is_ascii u" for u
    using that by (intro map_cong refl) (simp add: ascii_casingD(1) [OF assms(1)] is_ascii_mem)
  have "map (isspace L) ?t' = map (isspace L) ?t"
    by (simp only: sp [OF a] sp [OF a'] isspace_ascii_title_from)
  then have "stripped L ?t'"
    by (intro stripped_map [OF stripped_strip [of L s]]) (simp_all add: length_ascii_title_from)
  then have "strip L ?t' = ?t'" by (rule strip_stripped)
  moreover have "title L ?t' = ?t'"
    by (simp add: title_ascii [OF assms(1) a'] ascii_title_from_idem)
  ultimately show ?thesis by (simp add: t')
qed

subsection \<open>Normalized labels\<close>

lemma replace_space_idem: "replace_space (replace_space s) = replace_space s"
  by (simp add: replace_space_def)

lemma stripped_replace_space:
  assumes "isspace L 32" and "stripped L s"
  shows "stripped L (replace_space s)"
proof (cases "s = []")
  case True
  then show ?thesis by (simp add: replace_space_def stripped_def)
next
  case False
  with assms(2) have "\<not> isspace L (hd s)" "\<not> isspace L (last s)"
    by (auto simp: stripped_def)
  with False assms(1) show ?thesis
    by (auto simp: replace_space_def stripped_def hd_map last_map)
qed

lemma normalize_idem:
  assumes "isspace L 32"
  shows "(replace_space \<circ> strip L) ((replace_space \<circ> strip L) s) = (replace_space \<circ> strip L) s"
  by (simp add: strip_stripped [OF stripped_replace_space [OF assms stripped_strip]]
      replace_space_idem)

subsection \<open>Column labels\<close>

lemma ascii_eq_iff: "ascii s = ascii t \<longleftrightarrow> s = t"
proof
  assume "ascii s = ascii t"
  then have "map (of_char :: char \<Rightarrow> nat) s = map of_char t" by (simp add: ascii_def)
  moreover have "inj (of_char :: char \<Rightarrow> nat)" by (rule injI) simp
  ultimately show "s = t" by (simp add: inj_map_eq_map)
qed simp

lemma positions_mem:
  "j \<in> set (positions name cols) \<longleftrightarrow> j < length cols \<and> cols ! j = ascii name"
  by (auto simp: positions_def)

lemma positions_Nil: "positions name cols = [] \<longleftrightarrow> ascii name \<notin> set cols"
  by (auto simp: positions_def filter_empty_conv in_set_conv_nth)

lemma positions_Cons: "positions name cols = j # js \<Longrightarrow> ascii name \<in> set cols"
  using positions_Nil [of name cols] by auto

lemma distinct_positions: "distinct (positions name cols)"
  by (simp add: positions_def)

lemma distinct_singleton_list: "distinct xs \<Longrightarrow> set xs = {j} \<Longrightarrow> xs = [j]"
proof (cases xs)
  case Nil
  assume "set xs = {j}"
  with Nil show ?thesis by simp
next
  case (Cons y ys)
  assume d: "distinct xs" and s: "set xs = {j}"
  from s Cons have y: "y = j" and sub: "set ys \<subseteq> {j}" by auto
  from d Cons y have "j \<notin> set ys" by simp
  with sub have "ys = []" by (cases ys) auto
  with Cons y show ?thesis by simp
qed

lemma positions_single:
  assumes "distinct cols" and "ascii name \<in> set cols"
  shows "\<exists>j. positions name cols = [j]"
proof -
  from assms(2) obtain j where j: "j < length cols" "cols ! j = ascii name"
    by (auto simp: in_set_conv_nth)
  have "x = j" if x: "x < length cols" "cols ! x = ascii name" for x
  proof -
    from x(2) j(2) have "cols ! x = cols ! j" by (rule trans [OF _ sym])
    with assms(1) x(1) j(1) show ?thesis by (simp only: nth_eq_iff_index_eq)
  qed
  then have "\<forall>x. x \<in> set (positions name cols) \<longrightarrow> x = j"
    unfolding positions_mem by blast
  moreover from j have "j \<in> set (positions name cols)"
    unfolding positions_mem by blast
  ultimately have "set (positions name cols) = {j}" by blast
  with distinct_positions [of name cols] have "positions name cols = [j]"
    by (rule distinct_singleton_list)
  then show ?thesis ..
qed

lemma getitem_Inr:
  "getitem name df = Inr ps \<longleftrightarrow> ps = positions name (columns df) \<and> ascii name \<in> set (columns df)"
  by (auto simp: getitem_def positions_Nil split: list.splits dest: positions_Cons)

lemma position_Some: "position name df = Some j \<longleftrightarrow> positions name (columns df) = [j]"
  by (auto simp: position_def split: list.splits)

lemma positions_neq:
  assumes "positions n1 cols = [i]" and "positions n2 cols = [j]" and "n1 \<noteq> n2"
  shows "i \<noteq> j" and "i < length cols" and "j < length cols"
proof -
  from assms(1) have "i \<in> set (positions n1 cols)" by simp
  then have i: "i < length cols" "cols ! i = ascii n1" by (simp_all add: positions_mem)
  from assms(2) have "j \<in> set (positions n2 cols)" by simp
  then have j: "j < length cols" "cols ! j = ascii n2" by (simp_all add: positions_mem)
  from i j assms(3) show "i \<noteq> j" by (auto simp: ascii_eq_iff)
  from i j show "i < length cols" "j < length cols" by simp_all
qed

subsection \<open>The steps of clean\_data\<close>

lemma map2_map_same: "map2 f xs (map g xs) = map (\<lambda>x. f x (g x)) xs"
  by (induction xs) auto

lemma rows_setitem_map:
  "rows (setitem j dt (map g (series j df)) df) = map (\<lambda>r. r[j := g (r ! j)]) (rows df)"
proof -
  have "map g (map (\<lambda>r. r ! j) (rows df)) = map (\<lambda>r. g (r ! j)) (rows df)"
    by simp
  then have "map2 (\<lambda>r c. r[j := c]) (rows df) (map g (series j df)) =
      map (\<lambda>r. r[j := g (r ! j)]) (rows df)"
    by (simp only: series_def map2_map_same)
  then show ?thesis
    by (simp add: setitem_def)
qed

lemma columns_setitem: "columns (setitem j dt s df) = columns df"
  and dtypes_setitem: "dtypes (setitem j dt s df) = (dtypes df)[j := dt]"
  by (simp_all add: setitem_def)

lemma parse_rundate_Inr:
  assumes "parse_rundate L df = Inr df1"
  shows "columns df1 = columns df"
    and "ascii ''RUNDATE'' \<in> set (columns df) \<Longrightarrow>
         \<exists>d. positions ''RUNDATE'' (columns df) = [d] \<and>
             dtypes df1 = (dtypes df)[d := datetime64] \<and>
             rows df1 = map2 (\<lambda>r t. r[d := t]) (rows df)
                          (to_datetime L (dtypes df ! d) (map (\<lambda>r. r ! d) (rows df)))"
  using assms
  by (auto simp: parse_rundate_def getitem_Inr setitem_def series_def
      split: if_splits sum.splits list.splits)

lemma clean_vendor_Inr:
  assumes "clean_vendor L df = Inr df2"
  shows "\<exists>v. positions ''VENDOR'' (columns df) = [v] \<and> columns df2 = columns df \<and>
             dtypes df2 = (dtypes df)[v := object] \<and>
             can_use_str (dtypes df ! v) (series v df) \<and>
             rows df2 = map (\<lambda>r. r[v := str_title L (str_strip L (r ! v))]) (rows df)"
  using assms
  by (auto simp: clean_vendor_def getitem_Inr rows_setitem_map columns_setitem dtypes_setitem
      split: sum.splits list.splits if_splits)

lemma coerce_amount_Inr:
  assumes "coerce_amount L df = Inr df4"
  shows "\<exists>a. positions ''CHKSUBTOT'' (columns df) = [a] \<and> columns df4 = columns df \<and>
             dtypes df4 = (dtypes df)[a := numeric] \<and>
             rows df4 = map (\<lambda>r. r[a := to_numeric L (dtypes df ! a) (r ! a)]) (rows df)"
  using assms
  by (auto simp: coerce_amount_def getitem_Inr rows_setitem_map columns_setitem dtypes_setitem
      split: sum.splits list.splits)

lemma dropna_Inr:
  assumes "dropna labels df = Inr df'"
  shows "ascii ` set labels \<subseteq> set (columns df)" and "columns df' = columns df"
    and "dtypes df' = dtypes df"
    and "rows df' = filter
           (\<lambda>r. \<forall>j \<in> set (concat (map (\<lambda>name. positions name (columns df)) labels)). r ! j \<noteq> Null)
           (rows df)"
  using assms
  by (auto simp: dropna_def filter_empty_conv positions_Nil split: list.splits)

text \<open>The result of \<open>clean_data\<close>, step by step. \<open>ts\<close> is the parsed date column.\<close>

lemma clean_data_Inr:
  assumes "clean_data L df = Inr df'"
  shows "\<exists>v a d. positions ''VENDOR'' (columns df') = [v] \<and>
           positions ''CHKSUBTOT'' (columns df') = [a] \<and>
           positions ''RUNDATE'' (columns df') = [d] \<and>
           columns df' = map (replace_space \<circ> strip L) (columns df) \<and>
           dtypes df' = (dtypes df)[d := datetime64, v := object, a := numeric] \<and>
           rows df' = filter (\<lambda>r. r ! a \<noteq> Null)
             (map (\<lambda>r. r[a := to_numeric L (dtypes df ! a) (r ! a)])
               (filter (\<lambda>r. r ! v \<noteq> Null \<and> r ! a \<noteq> Null \<and> r ! d \<noteq> Null)
                 (map (\<lambda>r. r[v := str_title L (str_strip L (r ! v))])
                   (map2 (\<lambda>r t. r[d := t]) (rows df)
                      (to_datetime L (dtypes df ! d) (map (\<lambda>r. r ! d) (rows df)))))))"
proof -
  let ?df0 = "normalize_columns L df"
  from assms obtain df1 df2 df3 df4 where
    1: "parse_rundate L ?df0 = Inr df1" and
    2: "clean_vendor L df1 = Inr df2" and
    3: "dropna [''VENDOR'', ''CHKSUBTOT'', ''RUNDATE''] df2 = Inr df3" and
    4: "coerce_amount L df3 = Inr df4" and
    5: "dropna [''CHKSUBTOT''] df4 = Inr df'"
    by (auto simp: clean_data_def split: sum.splits)
  let ?cols = "map (replace_space \<circ> strip L) (columns df)"
  have c0: "columns ?df0 = ?cols" and r0: "rows ?df0 = rows df" and t0: "dtypes ?df0 = dtypes df"
    by (simp_all add: normalize_columns_def)
  from parse_rundate_Inr(1) [OF 1] c0 have c1: "columns df1 = ?cols" by simp
  from clean_vendor_Inr [OF 2] c1 obtain v where
    v: "positions ''VENDOR'' ?cols = [v]" and c2: "columns df2 = ?cols" and
    t2: "dtypes df2 = (dtypes df1)[v := object]" and
    r2: "rows df2 = map (\<lambda>r. r[v := str_title L (str_strip L (r ! v))]) (rows df1)"
    by auto
  from dropna_Inr [OF 3] c2 have
    in3: "ascii ''RUNDATE'' \<in> set ?cols" and c3: "columns df3 = ?cols" and
    t3: "dtypes df3 = dtypes df2" and
    r3: "rows df3 = filter
       (\<lambda>r. \<forall>j \<in> set (concat (map (\<lambda>name. positions name ?cols)
                [''VENDOR'', ''CHKSUBTOT'', ''RUNDATE''])). r ! j \<noteq> Null) (rows df2)"
    by auto
  from parse_rundate_Inr(2) [OF 1] in3 c0 r0 t0 obtain d where
    d: "positions ''RUNDATE'' ?cols = [d]" and
    t1: "dtypes df1 = (dtypes df)[d := datetime64]" and
    r1: "rows df1 = map2 (\<lambda>r t. r[d := t]) (rows df)
                      (to_datetime L (dtypes df ! d) (map (\<lambda>r. r ! d) (rows df)))"
    by auto
  from coerce_amount_Inr [OF 4] c3 obtain a where
    a: "positions ''CHKSUBTOT'' ?cols = [a]" and c4: "columns df4 = ?cols" and
    t4: "dtypes df4 = (dtypes df3)[a := numeric]" and
    r4: "rows df4 = map (\<lambda>r. r[a := to_numeric L (dtypes df3 ! a) (r ! a)]) (rows df3)"
    by auto
  from dropna_Inr [OF 5] c4 a have c5: "columns df' = ?cols" and t5: "dtypes df' = dtypes df4" and
    r5: "rows df' = filter (\<lambda>r. r ! a \<noteq> Null) (rows df4)"
    by auto
  from positions_neq(1) [OF v a] positions_neq(1) [OF a d] have ne: "v \<noteq> a" "a \<noteq> d"
    by simp_all
  have ta: "dtypes df3 ! a = dtypes df ! a"
    using ne by (simp add: t3 t2 t1)
  have t: "dtypes df' = (dtypes df)[d := datetime64, v := object, a := numeric]"
    by (simp add: t5 t4 t3 t2 t1)
  have r3': "rows df3 = filter (\<lambda>r. r ! v \<noteq> Null \<and> r ! a \<noteq> Null \<and> r ! d \<noteq> Null) (rows df2)"
    unfolding r3 by (simp add: v a d)
  from r5 r4 r3' r2 r1 ta have "rows df' = filter (\<lambda>r. r ! a \<noteq> Null)
             (map (\<lambda>r. r[a := to_numeric L (dtypes df ! a) (r ! a)])
               (filter (\<lambda>r. r ! v \<noteq> Null \<and> r ! a \<noteq> Null \<and> r ! d \<noteq> Null)
                 (map (\<lambda>r. r[v := str_title L (str_strip L (r ! v))])
                   (map2 (\<lambda>r t. r[d := t]) (rows df)
                      (to_datetime L (dtypes df ! d) (map (\<lambda>r. r ! d) (rows df)))))))"
    by simp
  with v a d c5 t show ?thesis by auto
qed

lemma filter_map_filter_map:
  "filter P (map f (filter Q (map g zs))) =
   map (\<lambda>z. f (g z)) (filter (\<lambda>z. Q (g z) \<and> P (f (g z))) zs)"
  by (induction zs) auto

lemma str_methods_Null:
  "str_title L (str_strip L c) \<noteq> Null \<longleftrightarrow> (case c of Str s \<Rightarrow> True | _ \<Rightarrow> False)"
  by (cases c) (simp_all add: str_title_def str_strip_def)

text \<open>The rows of the result: the raw rows that survive, each in its cleaned form.\<close>

lemma clean_data_rows:
  assumes "wf_df df" and "clean_data L df = Inr df'"
  shows "\<exists>v a d. positions ''VENDOR'' (columns df') = [v] \<and>
           positions ''CHKSUBTOT'' (columns df') = [a] \<and>
           positions ''RUNDATE'' (columns df') = [d] \<and>
           columns df' = map (replace_space \<circ> strip L) (columns df) \<and>
           dtypes df' = (dtypes df)[d := datetime64, v := object, a := numeric] \<and>
           rows df' = map (cleaned_row L (dtypes df ! a) v a d)
                        (filter (survives L (dtypes df ! a) v a)
                           (zip (rows df)
                              (to_datetime L (dtypes df ! d) (map (\<lambda>r. r ! d) (rows df)))))"
proof -
  from clean_data_Inr [OF assms(2)] obtain v a d where
    v: "positions ''VENDOR'' (columns df') = [v]" and
    a: "positions ''CHKSUBTOT'' (columns df') = [a]" and
    d: "positions ''RUNDATE'' (columns df') = [d]" and
    c: "columns df' = map (replace_space \<circ> strip L) (columns df)" and
    t: "dtypes df' = (dtypes df)[d := datetime64, v := object, a := numeric]" and
    r: "rows df' = filter (\<lambda>r. r ! a \<noteq> Null)
             (map (\<lambda>r. r[a := to_numeric L (dtypes df ! a) (r ! a)])
               (filter (\<lambda>r. r ! v \<noteq> Null \<and> r ! a \<noteq> Null \<and> r ! d \<noteq> Null)
                 (map (\<lambda>r. r[v := str_title L (str_strip L (r ! v))])
                   (map2 (\<lambda>r t. r[d := t]) (rows df)
                      (to_datetime L (dtypes df ! d) (map (\<lambda>r. r ! d) (rows df)))))))"
    by blast
  from positions_neq [OF v a] positions_neq [OF v d] positions_neq [OF a d] have
    ne: "v \<noteq> a" "v \<noteq> d" "a \<noteq> d" and
    lt: "v < length (columns df')" "a < length (columns df')" "d < length (columns df')"
    by simp_all
  let ?N = "to_numeric L (dtypes df ! a)"
  let ?zs = "zip (rows df) (to_datetime L (dtypes df ! d) (map (\<lambda>r. r ! d) (rows df)))"
  let ?f1 = "\<lambda>z. (fst z)[d := snd z]"
  let ?f2 = "\<lambda>r. r[v := str_title L (str_strip L (r ! v))]"
  let ?f4 = "\<lambda>r. r[a := ?N (r ! a)]"
  have m2: "map2 (\<lambda>r t. r[d := t]) (rows df)
       (to_datetime L (dtypes df ! d) (map (\<lambda>r. r ! d) (rows df))) = map ?f1 ?zs"
    by (simp add: case_prod_beta)
  have "rows df' = filter (\<lambda>r. r ! a \<noteq> Null) (map ?f4
          (filter (\<lambda>r. r ! v \<noteq> Null \<and> r ! a \<noteq> Null \<and> r ! d \<noteq> Null)
             (map (\<lambda>z. ?f2 (?f1 z)) ?zs)))"
    unfolding r m2 by (simp only: map_map comp_def)
  then have r': "rows df' = map (\<lambda>z. ?f4 (?f2 (?f1 z)))
      (filter (\<lambda>z. (?f2 (?f1 z) ! v \<noteq> Null \<and> ?f2 (?f1 z) ! a \<noteq> Null \<and> ?f2 (?f1 z) ! d \<noteq> Null) \<and>
                    ?f4 (?f2 (?f1 z)) ! a \<noteq> Null) ?zs)"
    by (simp only: filter_map_filter_map)
  have len: "length (fst z) = length (columns df')" if "z \<in> set ?zs" for z
  proof -
    from that have "(fst z, snd z) \<in> set ?zs" by simp
    then have "fst z \<in> set (rows df)" by (rule set_zip_leftD)
    with assms(1) c show ?thesis by (simp add: wf_df_def)
  qed
  have f: "?f4 (?f2 (?f1 z)) = cleaned_row L (dtypes df ! a) v a d z" for z
    using ne by (simp add: cleaned_row_def)
  have p: "((?f2 (?f1 z) ! v \<noteq> Null \<and> ?f2 (?f1 z) ! a \<noteq> Null \<and> ?f2 (?f1 z) ! d \<noteq> Null) \<and>
            ?f4 (?f2 (?f1 z)) ! a \<noteq> Null) = survives L (dtypes df ! a) v a z"
    if "z \<in> set ?zs" for z
  proof -
    from len [OF that] lt have l: "v < length (fst z)" "a < length (fst z)" "d < length (fst z)"
      by simp_all
    have 1: "?f2 (?f1 z) ! v = str_title L (str_strip L (fst z ! v))"
      using l ne by simp
    have 2: "?f2 (?f1 z) ! a = fst z ! a"
      using ne by simp
    have 3: "?f2 (?f1 z) ! d = snd z"
      using l ne by simp
    have 4: "?f4 (?f2 (?f1 z)) ! a = ?N (fst z ! a)"
      using l ne by simp
    show ?thesis
      by (simp only: 4) (simp only: 1 2 3 survives_def str_methods_Null conj_assoc)
  qed
  have "filter (\<lambda>z. (?f2 (?f1 z) ! v \<noteq> Null \<and> ?f2 (?f1 z) ! a \<noteq> Null \<and> ?f2 (?f1 z) ! d \<noteq> Null) \<and>
                    ?f4 (?f2 (?f1 z)) ! a \<noteq> Null) ?zs = filter (survives L (dtypes df ! a) v a) ?zs"
    by (rule filter_cong [OF refl p])
  with r' have "rows df' = map (cleaned_row L (dtypes df ! a) v a d)
      (filter (survives L (dtypes df ! a) v a) ?zs)"
    by (simp only: f)
  with v a d c t show ?thesis by blast
qed

subsection \<open>The heatmap without a department column\<close>

text \<open>Claim C9. For every table without a DEPARTMENT column (every cleaned table without
  one among them), \<open>department_vendor_heatmap\<close> draws nothing and raises nothing: the
  result is \<open>Inr None\<close>, no exception and no table handed to the plot.\<close>

theorem heatmap_skipped_without_department:
  assumes "ascii ''DEPARTMENT'' \<notin> set (columns df)"
  shows "department_vendor_heatmap df = Inr None"
  using assms by (simp add: department_vendor_heatmap_def)

theorem heatmap_skipped_without_department_witness:
  "cleaned example_cleaned \<and> ascii ''DEPARTMENT'' \<notin> set (columns example_cleaned) \<and>
   department_vendor_heatmap example_cleaned = Inr None"
proof -
  have c: "cleaned example_cleaned" by code_simp
  have h: "ascii ''DEPARTMENT'' \<notin> set (columns example_cleaned)" by code_simp
  from c h heatmap_skipped_without_department [OF h] show ?thesis by simp
qed

subsection \<open>Missing columns\<close>

lemma dropna_Inl:
  assumes "\<not> ascii ` set labels \<subseteq> set (columns df)"
  shows "dropna labels df =
     Inl (KeyError (filter (\<lambda>name. ascii name \<notin> set (columns df)) labels))"
proof -
  have "filter (\<lambda>name. positions name (columns df) = []) labels =
        filter (\<lambda>name. ascii name \<notin> set (columns df)) labels"
    by (simp add: positions_Nil)
  moreover from assms have "filter (\<lambda>name. ascii name \<notin> set (columns df)) labels \<noteq> []"
    by (auto simp: filter_empty_conv)
  ultimately show ?thesis
    by (auto simp: dropna_def split: list.splits)
qed

lemma clean_data_Inr_columns:
  assumes "clean_data L df = Inr df'"
  shows "{ascii ''VENDOR'', ascii ''CHKSUBTOT'', ascii ''RUNDATE''}
           \<subseteq> set (columns (normalize_columns L df))"
proof -
  from clean_data_Inr [OF assms] obtain v a d where
    p: "positions ''VENDOR'' (columns df') = [v]" "positions ''CHKSUBTOT'' (columns df') = [a]"
    "positions ''RUNDATE'' (columns df') = [d]" and
    c: "columns df' = map (replace_space \<circ> strip L) (columns df)"
    by blast
  from p [THEN positions_Cons] have
    "ascii ''VENDOR'' \<in> set (columns df')" "ascii ''CHKSUBTOT'' \<in> set (columns df')"
    "ascii ''RUNDATE'' \<in> set (columns df')" .
  with c show ?thesis
    by (simp add: normalize_columns_def)
qed

text \<open>With no repeated label and a required label missing, the exception is that of the
  \<open>.str\<close> accessor at line 33 or the KeyError of line 33 or of line 36.\<close>

lemma clean_data_distinct_Inl:
  assumes "distinct (columns (normalize_columns L df))"
    and "\<not> {ascii ''VENDOR'', ascii ''CHKSUBTOT'', ascii ''RUNDATE''}
             \<subseteq> set (columns (normalize_columns L df))"
  shows "(clean_data L df = Inl AttributeError \<and>
          ascii ''VENDOR'' \<in> set (columns (normalize_columns L df))) \<or>
         clean_data L df =
           Inl (KeyError (if ascii ''VENDOR'' \<in> set (columns (normalize_columns L df))
                     then filter (\<lambda>name. ascii name \<notin> set (columns (normalize_columns L df)))
                            [''VENDOR'', ''CHKSUBTOT'', ''RUNDATE'']
                     else [''VENDOR'']))"
proof -
  let ?df0 = "normalize_columns L df"
  obtain df1 where 1: "parse_rundate L ?df0 = Inr df1" and c1: "columns df1 = columns ?df0"
  proof (cases "ascii ''RUNDATE'' \<in> set (columns ?df0)")
    case True
    with positions_single [OF assms(1)] obtain d where
      "positions ''RUNDATE'' (columns ?df0) = [d]"
      by blast
    with True that show ?thesis
      by (simp add: parse_rundate_def getitem_def columns_setitem)
  next
    case False
    with that show ?thesis by (simp add: parse_rundate_def)
  qed
  show ?thesis
  proof (cases "ascii ''VENDOR'' \<in> set (columns ?df0)")
    case False
    with c1 have "clean_vendor L df1 = Inl (KeyError [''VENDOR''])"
      by (simp add: clean_vendor_def getitem_def positions_Nil [THEN iffD2])
    with 1 False show ?thesis by (simp add: clean_data_def)
  next
    case True
    with positions_single [OF assms(1)] obtain v where
      v: "positions ''VENDOR'' (columns ?df0) = [v]"
      by blast
    show ?thesis
    proof (cases "can_use_str (dtypes df1 ! v) (series v df1)")
      case False
      with v c1 have "clean_vendor L df1 = Inl AttributeError"
        by (simp add: clean_vendor_def getitem_def)
      with 1 True show ?thesis by (simp add: clean_data_def)
    next
      case usable: True
      with v c1 obtain df2 where 2: "clean_vendor L df1 = Inr df2"
        and c2: "columns df2 = columns ?df0"
        by (simp add: clean_vendor_def getitem_def columns_setitem)
      from assms(2) c2 have
        "\<not> ascii ` set [''VENDOR'', ''CHKSUBTOT'', ''RUNDATE''] \<subseteq> set (columns df2)"
        by simp
      from dropna_Inl [OF this] 1 2 c2 True show ?thesis
        by (simp add: clean_data_def)
    qed
  qed
qed

text \<open>Claim C10. \<open>clean_data\<close> is partial on the column set: when one of VENDOR,
  CHKSUBTOT, RUNDATE is not among the normalized column labels, it raises instead of
  returning a table. Only the date parsing is guarded. With no repeated label the
  exception is the KeyError of line 33 or of line 36, which lists required labels that
  are missing, unless the \<open>.str\<close> accessor of line 33 has refused a VENDOR column that
  holds no text before line 36 is reached.\<close>

theorem clean_data_missing_column:
  assumes "name \<in> {''VENDOR'', ''CHKSUBTOT'', ''RUNDATE''}"
    and "ascii name \<notin> set (columns (normalize_columns L df))"
  shows "(\<exists>e. clean_data L df = Inl e) \<and>
         (distinct (columns (normalize_columns L df)) \<longrightarrow>
            (clean_data L df = Inl AttributeError \<and>
             ascii ''VENDOR'' \<in> set (columns (normalize_columns L df))) \<or>
            (\<exists>missing. clean_data L df = Inl (KeyError missing) \<and>
               missing \<noteq> [] \<and>
               set missing \<subseteq> {m \<in> {''VENDOR'', ''CHKSUBTOT'', ''RUNDATE''}.
                                 ascii m \<notin> set (columns (normalize_columns L df))}))"
proof
  show "\<exists>e. clean_data L df = Inl e"
  proof (cases "clean_data L df")
    case (Inl e)
    then show ?thesis by blast
  next
    case (Inr df')
    from clean_data_Inr_columns [OF Inr] assms show ?thesis by auto
  qed
next
  let ?cols = "columns (normalize_columns L df)"
  from assms have n: "\<not> {ascii ''VENDOR'', ascii ''CHKSUBTOT'', ascii ''RUNDATE''} \<subseteq> set ?cols"
    by auto
  show "distinct ?cols \<longrightarrow>
            (clean_data L df = Inl AttributeError \<and> ascii ''VENDOR'' \<in> set ?cols) \<or>
            (\<exists>missing. clean_data L df = Inl (KeyError missing) \<and>
               missing \<noteq> [] \<and>
               set missing \<subseteq> {m \<in> {''VENDOR'', ''CHKSUBTOT'', ''RUNDATE''}. ascii m \<notin> set ?cols})"
  proof
    assume "distinct ?cols"
    from clean_data_distinct_Inl [OF this n]
    consider "clean_data L df = Inl AttributeError \<and> ascii ''VENDOR'' \<in> set ?cols"
      | "clean_data L df =
           Inl (KeyError (if ascii ''VENDOR'' \<in> set ?cols
                     then filter (\<lambda>name. ascii name \<notin> set ?cols)
                            [''VENDOR'', ''CHKSUBTOT'', ''RUNDATE'']
                     else [''VENDOR'']))"
      by blast
    then show "(clean_data L df = Inl AttributeError \<and> ascii ''VENDOR'' \<in> set ?cols) \<or>
            (\<exists>missing. clean_data L df = Inl (KeyError missing) \<and>
               missing \<noteq> [] \<and>
               set missing \<subseteq> {m \<in> {''VENDOR'', ''CHKSUBTOT'', ''RUNDATE''}. ascii m \<notin> set ?cols})"
    proof cases
      case 1
      then show ?thesis by blast
    next
      case 2
      let ?missing = "if ascii ''VENDOR'' \<in> set ?cols
                     then filter (\<lambda>name. ascii name \<notin> set ?cols)
                            [''VENDOR'', ''CHKSUBTOT'', ''RUNDATE'']
                     else [''VENDOR'']"
      from n have "?missing \<noteq> []"
        by (auto simp: filter_empty_conv)
      moreover have
        "set ?missing \<subseteq> {m \<in> {''VENDOR'', ''CHKSUBTOT'', ''RUNDATE''}. ascii m \<notin> set ?cols}"
        by auto
      ultimately show ?thesis using 2 by blast
    qed
  qed
qed

theorem clean_data_missing_column_witness:
  "''RUNDATE'' \<in> {''VENDOR'', ''CHKSUBTOT'', ''RUNDATE''} \<and>
   ascii ''RUNDATE'' \<notin> set (columns (normalize_columns sample example_no_rundate)) \<and>
   distinct (columns (normalize_columns sample example_no_rundate)) \<and>
   clean_data sample example_no_rundate = Inl (KeyError [''RUNDATE''])"
proof -
  have 1: "''RUNDATE'' \<in> {''VENDOR'', ''CHKSUBTOT'', ''RUNDATE''}" by simp
  have 2: "ascii ''RUNDATE'' \<notin> set (columns (normalize_columns sample example_no_rundate))"
    by code_simp
  have 3: "distinct (columns (normalize_columns sample example_no_rundate))" by code_simp
  have 4: "clean_data sample example_no_rundate = Inl (KeyError [''RUNDATE''])"
    by code_simp
  from clean_data_missing_column [OF 1 2] 1 2 3 4
  show ?thesis by simp
qed

subsection \<open>Which rows survive\<close>

text \<open>Claim C1, as stated, fails. In this table both rows have a vendor, an amount and
  a run date that are not null, the amounts are numbers and both dates parse; the
  second row is dropped all the same, because its vendor is the number 3: the string
  methods of line 33 turn a vendor that is not text into NaN, and line 36 drops the
  row.\<close>

theorem clean_data_required_fields_counterexample:
  "rows example_vendor_number =
     [[Str (ascii ''Acme Corp''), Num 10, Str (ascii ''2024-01-17'')],
      [Num 3, Num 5, Str (ascii ''2024-01-18'')]] \<and>
   position ''VENDOR'' example_vendor_number = Some 0 \<and>
   position ''CHKSUBTOT'' example_vendor_number = Some 1 \<and>
   position ''RUNDATE'' example_vendor_number = Some 2 \<and>
   spec_required_fields sample numeric 0 1 2 [Num 3, Num 5, Str (ascii ''2024-01-18'')] \<and>
   to_datetime sample object (series 2 example_vendor_number) =
     [Date (Timestamp 2024 1 17), Date (Timestamp 2024 1 18)] \<and>
   clean_data sample example_vendor_number =
     Inr \<lparr>columns = [ascii ''VENDOR'', ascii ''CHKSUBTOT'', ascii ''RUNDATE''],
          dtypes = [object, numeric, datetime64],
          rows = [[Str (ascii ''Acme Corp''), Num 10, Date (Timestamp 2024 1 17)]]\<rparr>"
proof -
  have 1: "rows example_vendor_number =
     [[Str (ascii ''Acme Corp''), Num 10, Str (ascii ''2024-01-17'')],
      [Num 3, Num 5, Str (ascii ''2024-01-18'')]]"
    by (simp add: example_vendor_number_def)
  have 2: "position ''VENDOR'' example_vendor_number = Some 0"
    "position ''CHKSUBTOT'' example_vendor_number = Some 1"
    "position ''RUNDATE'' example_vendor_number = Some 2"
    by code_simp+
  have 3: "spec_required_fields sample numeric 0 1 2 [Num 3, Num 5, Str (ascii ''2024-01-18'')]"
    by code_simp
  have 4: "to_datetime sample object (series 2 example_vendor_number) =
     [Date (Timestamp 2024 1 17), Date (Timestamp 2024 1 18)]"
    by code_simp
  have 5: "clean_data sample example_vendor_number =
     Inr \<lparr>columns = [ascii ''VENDOR'', ascii ''CHKSUBTOT'', ascii ''RUNDATE''],
          dtypes = [object, numeric, datetime64],
          rows = [[Str (ascii ''Acme Corp''), Num 10, Date (Timestamp 2024 1 17)]]\<rparr>"
    by code_simp
  from 1 2 3 4 5 show ?thesis by (intro conjI)
qed

text \<open>Claim C1, amended. For every raw table on which \<open>clean_data\<close> returns, the rows
  of the result are, in order, the cleaned forms of exactly the raw rows that
  \<open>survive\<close>: those whose vendor is a string, whose amount is not null and is numeric
  after coercion, and whose run date is not null after \<open>to_datetime\<close>. Each raw row is
  paired with the element that \<open>to_datetime\<close> made of its run date. So the cleaned
  table has at most as many rows as the raw one, and a row is dropped only when one of
  these conditions fails for it.\<close>

theorem clean_data_survivors:
  assumes "wf_df df" and "\<forall>dt cs. length (to_datetime L dt cs) = length cs"
    and "clean_data L df = Inr df'"
  shows "\<exists>v a d. position ''VENDOR'' df' = Some v \<and> position ''CHKSUBTOT'' df' = Some a \<and>
           position ''RUNDATE'' df' = Some d \<and>
           map fst (zip (rows df) (to_datetime L (dtypes df ! d) (series d df))) = rows df \<and>
           rows df' = map (cleaned_row L (dtypes df ! a) v a d)
                        (filter (survives L (dtypes df ! a) v a)
                           (zip (rows df) (to_datetime L (dtypes df ! d) (series d df)))) \<and>
           length (rows df') \<le> length (rows df)"
proof -
  from clean_data_rows [OF assms(1,3)] obtain v a d where
    p: "positions ''VENDOR'' (columns df') = [v]" "positions ''CHKSUBTOT'' (columns df') = [a]"
       "positions ''RUNDATE'' (columns df') = [d]" and
    r: "rows df' = map (cleaned_row L (dtypes df ! a) v a d)
                        (filter (survives L (dtypes df ! a) v a)
                           (zip (rows df) (to_datetime L (dtypes df ! d) (series d df))))"
    unfolding series_def by blast
  let ?zs = "zip (rows df) (to_datetime L (dtypes df ! d) (series d df))"
  from assms(2) have l: "length (to_datetime L (dtypes df ! d) (series d df)) = length (rows df)"
    by (simp add: series_def)
  then have m: "map fst ?zs = rows df" by simp
  have "length (rows df') = length (filter (survives L (dtypes df ! a) v a) ?zs)"
    unfolding r by (rule length_map)
  also have "\<dots> \<le> length ?zs" by (rule length_filter_le)
  also from l have "\<dots> = length (rows df)" by simp
  finally have "length (rows df') \<le> length (rows df)" .
  with p r m show ?thesis
    unfolding position_Some by blast
qed

lemma length_iso_to_datetime: "length (iso_to_datetime dt cs) = length cs"
  by (simp add: iso_to_datetime_def)

theorem clean_data_survivors_witness:
  "wf_df example_raw \<and> (\<forall>dt cs. length (to_datetime sample dt cs) = length cs) \<and>
   clean_data sample example_raw = Inr example_raw_cleaned \<and>
   (\<exists>v a d. position ''VENDOR'' example_raw_cleaned = Some v \<and>
      position ''CHKSUBTOT'' example_raw_cleaned = Some a \<and>
      position ''RUNDATE'' example_raw_cleaned = Some d \<and>
      map fst (zip (rows example_raw) (to_datetime sample (dtypes example_raw ! d)
         (series d example_raw))) = rows example_raw \<and>
      rows example_raw_cleaned = map (cleaned_row sample (dtypes example_raw ! a) v a d)
         (filter (survives sample (dtypes example_raw ! a) v a)
            (zip (rows example_raw) (to_datetime sample (dtypes example_raw ! d)
               (series d example_raw)))) \<and>
      length (rows example_raw_cleaned) \<le> length (rows example_raw))"
proof -
  have 1: "wf_df example_raw" by code_simp
  have 2: "\<forall>dt cs. length (to_datetime sample dt cs) = length cs"
    by (simp add: sample_def length_iso_to_datetime)
  have 3: "clean_data sample example_raw = Inr example_raw_cleaned"
    by code_simp
  from clean_data_survivors [OF 1 2 3] 1 2 3 show ?thesis by blast
qed

subsection \<open>What a surviving row holds\<close>

lemma to_numeric_Num:
  "conforms dt c \<Longrightarrow> to_numeric L dt c \<noteq> Null \<Longrightarrow> \<exists>x. to_numeric L dt c = Num x"
  by (cases dt; cases c) (auto simp: to_numeric_def conforms_def split: option.splits)

lemma typed_dfD:
  assumes "typed_df df" and "r \<in> set (rows df)" and "j < length r"
  shows "conforms (dtypes df ! j) (r ! j)"
proof -
  from assms(1,2) have "list_all2 conforms (dtypes df) r"
    by (simp add: typed_df_def)
  with assms(3) show ?thesis
    by (simp add: list_all2_conv_all_nth)
qed

lemma clean_data_row:
  assumes "wf_df df" and "clean_data L df = Inr df'" and "r' \<in> set (rows df')"
    and v: "positions ''VENDOR'' (columns df') = [v]"
    and a: "positions ''CHKSUBTOT'' (columns df') = [a]"
    and d: "positions ''RUNDATE'' (columns df') = [d]"
  shows "\<exists>r t s. r \<in> set (rows df) \<and>
           t \<in> set (to_datetime L (dtypes df ! d) (map (\<lambda>r. r ! d) (rows df))) \<and>
           length r = length (columns df') \<and> length r' = length (columns df') \<and>
           r ! v = Str s \<and> r' ! v = Str (title L (strip L s)) \<and>
           r' ! a = to_numeric L (dtypes df ! a) (r ! a) \<and> r' ! a \<noteq> Null \<and>
           t \<noteq> Null \<and> r' ! d = t"
proof -
  let ?zs = "zip (rows df) (to_datetime L (dtypes df ! d) (map (\<lambda>r. r ! d) (rows df)))"
  from clean_data_rows [OF assms(1,2)] v a d have
    c: "columns df' = map (replace_space \<circ> strip L) (columns df)" and
    r: "rows df' = map (cleaned_row L (dtypes df ! a) v a d)
                     (filter (survives L (dtypes df ! a) v a) ?zs)"
    by auto
  from positions_neq [OF v a] positions_neq [OF v d] positions_neq [OF a d] have
    ne: "v \<noteq> a" "v \<noteq> d" "a \<noteq> d" and
    lt: "v < length (columns df')" "a < length (columns df')" "d < length (columns df')"
    by simp_all
  from assms(3) r obtain z where z: "z \<in> set ?zs"
    and ok: "survives L (dtypes df ! a) v a z" and r': "r' = cleaned_row L (dtypes df ! a) v a d z"
    by auto
  from z have "(fst z, snd z) \<in> set ?zs" by simp
  then have r0: "fst z \<in> set (rows df)"
    and t: "snd z \<in> set (to_datetime L (dtypes df ! d) (map (\<lambda>r. r ! d) (rows df)))"
    by (rule set_zip_leftD, rule set_zip_rightD)
  from assms(1) r0 c have len: "length (fst z) = length (columns df')"
    by (simp add: wf_df_def)
  from ok obtain s where s: "fst z ! v = Str s"
    by (cases "fst z ! v") (simp_all add: survives_def)
  from ok have n: "to_numeric L (dtypes df ! a) (fst z ! a) \<noteq> Null" and tn: "snd z \<noteq> Null"
    by (simp_all add: survives_def)
  have "length r' = length (columns df')"
    by (simp add: r' cleaned_row_def len)
  moreover have "r' ! v = Str (title L (strip L s))"
    using ne lt len s by (simp add: r' cleaned_row_def str_title_def str_strip_def)
  moreover have "r' ! a = to_numeric L (dtypes df ! a) (fst z ! a)"
    using lt len by (simp add: r' cleaned_row_def)
  moreover have "r' ! d = snd z"
    using ne lt len by (simp add: r' cleaned_row_def)
  ultimately show ?thesis
    using r0 t s n tn len by (intro exI [of _ "fst z"] exI [of _ "snd z"] exI [of _ s]) simp
qed

lemma positions_labels:
  "positions ''VENDOR'' [ascii ''VENDOR'', ascii ''CHKSUBTOT'', ascii ''RUNDATE''] = [0]"
  "positions ''CHKSUBTOT'' [ascii ''VENDOR'', ascii ''CHKSUBTOT'', ascii ''RUNDATE''] = [1]"
  "positions ''RUNDATE'' [ascii ''VENDOR'', ascii ''CHKSUBTOT'', ascii ''RUNDATE''] = [2]"
  by code_simp+

text \<open>Claim C7. Every row of the cleaned table comes from a raw row whose vendor was a
  string: its vendor is that string trimmed and put in title case (\<open>spec_trim\<close>,
  \<open>spec_title_case\<close>), and its amount is the number that the coercion made of the raw
  amount. For the scenario of the spec, with any library that has the ASCII rows of the
  character tables, reads \<open>100.50\<close> as the number 100.5 and the one-element date column
  as 2024-01-15: the raw row (" acme corp ", "100.50", "2024-01-15") is cleaned to
  ("Acme Corp", 100.5, 2024-01-15). Title case lowers the letters inside a word: line 33
  makes "B&B  Supply Co" of "  b&b  SUPPLY co ".\<close>

theorem clean_data_vendor_amount:
  "(wf_df df \<and> typed_df df \<and> clean_data L df = Inr df' \<longrightarrow>
      (\<exists>v a. position ''VENDOR'' df' = Some v \<and> position ''CHKSUBTOT'' df' = Some a \<and>
         (\<forall>r' \<in> set (rows df'). \<exists>r \<in> set (rows df). \<exists>s x.
             r ! v = Str s \<and> r' ! v = Str (spec_title_case L (spec_trim L s)) \<and>
             to_numeric L (dtypes df ! a) (r ! a) = Num x \<and> r' ! a = Num x))) \<and>
   (ascii_casing L \<and> parse_float L (ascii ''100.50'') = Some (201 / 2) \<and>
    to_datetime L object [Str (ascii ''2024-01-15'')] = [Date (Timestamp 2024 1 15)] \<longrightarrow>
      clean_data L
        \<lparr>columns = [ascii ''VENDOR'', ascii ''CHKSUBTOT'', ascii ''RUNDATE''],
         dtypes = [object, object, object],
         rows = [[Str (ascii '' acme corp ''), Str (ascii ''100.50''),
                  Str (ascii ''2024-01-15'')]]\<rparr> =
      Inr \<lparr>columns = [ascii ''VENDOR'', ascii ''CHKSUBTOT'', ascii ''RUNDATE''],
           dtypes = [object, numeric, datetime64],
           rows = [[Str (ascii ''Acme Corp''), Num (201 / 2), Date (Timestamp 2024 1 15)]]\<rparr>) \<and>
   (ascii_casing L \<longrightarrow>
      str_title L (str_strip L (Str (ascii ''  b&b  SUPPLY co ''))) =
      Str (ascii ''B&B  Supply Co''))"
proof (intro conjI impI)
  assume h: "wf_df df \<and> typed_df df \<and> clean_data L df = Inr df'"
  then have wf: "wf_df df" and ty: "typed_df df" and cl: "clean_data L df = Inr df'"
    by simp_all
  from clean_data_rows [OF wf cl] obtain v a d where
    v: "positions ''VENDOR'' (columns df') = [v]" and
    a: "positions ''CHKSUBTOT'' (columns df') = [a]" and
    d: "positions ''RUNDATE'' (columns df') = [d]"
    by blast
  have "\<forall>r' \<in> set (rows df'). \<exists>r \<in> set (rows df). \<exists>s x.
             r ! v = Str s \<and> r' ! v = Str (spec_title_case L (spec_trim L s)) \<and>
             to_numeric L (dtypes df ! a) (r ! a) = Num x \<and> r' ! a = Num x"
  proof
    fix r' assume "r' \<in> set (rows df')"
    from clean_data_row [OF wf cl this v a d] obtain r s where
      r: "r \<in> set (rows df)" and l: "length r = length (columns df')" and
      s: "r ! v = Str s" "r' ! v = Str (title L (strip L s))" and
      n: "r' ! a = to_numeric L (dtypes df ! a) (r ! a)" "r' ! a \<noteq> Null"
      by blast
    from positions_neq(3) [OF v a] l have "a < length r" by simp
    from typed_dfD [OF ty r this] n obtain x where
      x: "to_numeric L (dtypes df ! a) (r ! a) = Num x"
      by (auto dest: to_numeric_Num)
    from s have "r' ! v = Str (spec_title_case L (spec_trim L s))"
      by (simp only: title_spec_title_case strip_spec_trim)
    with r s(1) x n(1) show "\<exists>r \<in> set (rows df). \<exists>s x.
             r ! v = Str s \<and> r' ! v = Str (spec_title_case L (spec_trim L s)) \<and>
             to_numeric L (dtypes df ! a) (r ! a) = Num x \<and> r' ! a = Num x"
      by auto
  qed
  with v a show "\<exists>v a. position ''VENDOR'' df' = Some v \<and> position ''CHKSUBTOT'' df' = Some a \<and>
         (\<forall>r' \<in> set (rows df'). \<exists>r \<in> set (rows df). \<exists>s x.
             r ! v = Str s \<and> r' ! v = Str (spec_title_case L (spec_trim L s)) \<and>
             to_numeric L (dtypes df ! a) (r ! a) = Num x \<and> r' ! a = Num x)"
    unfolding position_Some by blast
next
  assume p: "ascii_casing L \<and> parse_float L (ascii ''100.50'') = Some (201 / 2) \<and>
    to_datetime L object [Str (ascii ''2024-01-15'')] = [Date (Timestamp 2024 1 15)]"
  then have ac: "ascii_casing L" by simp
  have ia: "is_ascii (ascii '' acme corp '')" "is_ascii (ascii ''VENDOR'')"
    "is_ascii (ascii ''CHKSUBTOT'')" "is_ascii (ascii ''RUNDATE'')"
    by code_simp+
  have "ascii_title_from False (ascii_strip (ascii '' acme corp '')) = ascii ''Acme Corp''"
    by code_simp
  then have t: "title L (strip L (ascii '' acme corp '')) = ascii ''Acme Corp''"
    using strip_ascii [OF ac ia(1)] title_ascii [OF ac is_ascii_strip [OF ia(1), of L]]
    by simp
  have "replace_space (ascii_strip (ascii ''VENDOR'')) = ascii ''VENDOR''"
    "replace_space (ascii_strip (ascii ''CHKSUBTOT'')) = ascii ''CHKSUBTOT''"
    "replace_space (ascii_strip (ascii ''RUNDATE'')) = ascii ''RUNDATE''"
    by code_simp+
  then have n: "map (replace_space \<circ> strip L)
        [ascii ''VENDOR'', ascii ''CHKSUBTOT'', ascii ''RUNDATE''] =
      [ascii ''VENDOR'', ascii ''CHKSUBTOT'', ascii ''RUNDATE'']"
    by (simp add: strip_ascii [OF ac] ia)
  show "clean_data L
        \<lparr>columns = [ascii ''VENDOR'', ascii ''CHKSUBTOT'', ascii ''RUNDATE''],
         dtypes = [object, object, object],
         rows = [[Str (ascii '' acme corp ''), Str (ascii ''100.50''),
                  Str (ascii ''2024-01-15'')]]\<rparr> =
      Inr \<lparr>columns = [ascii ''VENDOR'', ascii ''CHKSUBTOT'', ascii ''RUNDATE''],
           dtypes = [object, numeric, datetime64],
           rows = [[Str (ascii ''Acme Corp''), Num (201 / 2), Date (Timestamp 2024 1 15)]]\<rparr>"
    using p n
    by (simp add: clean_data_def normalize_columns_def parse_rundate_def getitem_def
        clean_vendor_def coerce_amount_def dropna_def setitem_def series_def positions_labels
        can_use_str_def str_strip_def str_title_def t to_numeric_def del: map_map)
next
  assume ac: "ascii_casing L"
  have ia: "is_ascii (ascii ''  b&b  SUPPLY co '')" by code_simp
  have "ascii_title_from False (ascii_strip (ascii ''  b&b  SUPPLY co '')) =
      ascii ''B&B  Supply Co''"
    by code_simp
  then have "title L (strip L (ascii ''  b&b  SUPPLY co '')) = ascii ''B&B  Supply Co''"
    using strip_ascii [OF ac ia] title_ascii [OF ac is_ascii_strip [OF ia, of L]]
    by simp
  then show "str_title L (str_strip L (Str (ascii ''  b&b  SUPPLY co ''))) =
      Str (ascii ''B&B  Supply Co'')"
    by (simp add: str_title_def str_strip_def)
qed

lemma ascii_casing_sample: "ascii_casing sample"
  unfolding ascii_casing_def sample_def
  by (auto simp: ascii_isspace_def ascii_iscased_def ascii_lower_def ascii_upper_def)

theorem clean_data_vendor_amount_witness:
  "wf_df example_raw \<and> typed_df example_raw \<and>
   clean_data sample example_raw = Inr example_raw_cleaned \<and>
   ascii_casing sample \<and> parse_float sample (ascii ''100.50'') = Some (201 / 2) \<and>
   to_datetime sample object [Str (ascii ''2024-01-15'')] = [Date (Timestamp 2024 1 15)] \<and>
   clean_data sample
        \<lparr>columns = [ascii ''VENDOR'', ascii ''CHKSUBTOT'', ascii ''RUNDATE''],
         dtypes = [object, object, object],
         rows = [[Str (ascii '' acme corp ''), Str (ascii ''100.50''),
                  Str (ascii ''2024-01-15'')]]\<rparr> =
      Inr \<lparr>columns = [ascii ''VENDOR'', ascii ''CHKSUBTOT'', ascii ''RUNDATE''],
           dtypes = [object, numeric, datetime64],
           rows = [[Str (ascii ''Acme Corp''), Num (201 / 2), Date (Timestamp 2024 1 15)]]\<rparr> \<and>
   str_title sample (str_strip sample (Str (ascii ''  b&b  SUPPLY co ''))) =
      Str (ascii ''B&B  Supply Co'') \<and>
   spec_title_case sample (spec_trim sample (ascii '' acme corp '')) = ascii ''Acme Corp'' \<and>
   spec_title_case sample (spec_trim sample (ascii ''b&b  SUPPLY'')) = ascii ''B&B  Supply'' \<and>
   (\<exists>v a. position ''VENDOR'' example_raw_cleaned = Some v \<and>
      position ''CHKSUBTOT'' example_raw_cleaned = Some a \<and>
      (\<forall>r' \<in> set (rows example_raw_cleaned). \<exists>r \<in> set (rows example_raw). \<exists>s x.
          r ! v = Str s \<and> r' ! v = Str (spec_title_case sample (spec_trim sample s)) \<and>
          to_numeric sample (dtypes example_raw ! a) (r ! a) = Num x \<and> r' ! a = Num x))"
proof -
  have 1: "wf_df example_raw" by code_simp
  have 2: "typed_df example_raw" by code_simp
  have 3: "clean_data sample example_raw = Inr example_raw_cleaned" by code_simp
  have 4: "parse_float sample (ascii ''100.50'') = Some (201 / 2)" by code_simp
  have 5: "to_datetime sample object [Str (ascii ''2024-01-15'')] = [Date (Timestamp 2024 1 15)]"
    by code_simp
  have 6: "spec_title_case sample (spec_trim sample (ascii '' acme corp '')) = ascii ''Acme Corp''"
    "spec_title_case sample (spec_trim sample (ascii ''b&b  SUPPLY'')) = ascii ''B&B  Supply''"
    by code_simp+
  note inst = clean_data_vendor_amount [of example_raw sample example_raw_cleaned]
  from inst 1 2 3 have 7: "\<exists>v a. position ''VENDOR'' example_raw_cleaned = Some v \<and>
      position ''CHKSUBTOT'' example_raw_cleaned = Some a \<and>
      (\<forall>r' \<in> set (rows example_raw_cleaned). \<exists>r \<in> set (rows example_raw). \<exists>s x.
          r ! v = Str s \<and> r' ! v = Str (spec_title_case sample (spec_trim sample s)) \<and>
          to_numeric sample (dtypes example_raw ! a) (r ! a) = Num x \<and> r' ! a = Num x)"
    by blast
  from inst ascii_casing_sample 4 5 have 8: "clean_data sample
        \<lparr>columns = [ascii ''VENDOR'', ascii ''CHKSUBTOT'', ascii ''RUNDATE''],
         dtypes = [object, object, object],
         rows = [[Str (ascii '' acme corp ''), Str (ascii ''100.50''),
                  Str (ascii ''2024-01-15'')]]\<rparr> =
      Inr \<lparr>columns = [ascii ''VENDOR'', ascii ''CHKSUBTOT'', ascii ''RUNDATE''],
           dtypes = [object, numeric, datetime64],
           rows = [[Str (ascii ''Acme Corp''), Num (201 / 2), Date (Timestamp 2024 1 15)]]\<rparr>"
    by blast
  from inst ascii_casing_sample have 9:
    "str_title sample (str_strip sample (Str (ascii ''  b&b  SUPPLY co ''))) =
      Str (ascii ''B&B  Supply Co'')"
    by blast
  from 1 2 3 ascii_casing_sample 4 5 8 9 6 7 show ?thesis by (intro conjI)
qed

subsection \<open>Cleaning a cleaned table\<close>

text \<open>Claim C4, as stated, fails: \<open>str.title\<close> is not idempotent on Unicode text.
  The vendor of this table is the three characters \<open>a\<close>, U+0130, \<open>b\<close>. The lower case
  of U+0130 is the two characters \<open>i\<close> and U+0307, and U+0307 is not cased. The first
  cleaning gives \<open>A\<close>, \<open>i\<close>, U+0307, \<open>b\<close>, where \<open>b\<close> follows the cased U+0130 and
  is lower-cased. The second gives \<open>A\<close>, \<open>i\<close>, U+0307, \<open>B\<close>, where \<open>b\<close> follows the
  uncased U+0307 and is title-cased. Cleaning the cleaned table changes it.\<close>

theorem clean_data_twice_counterexample:
  "clean_data sample example_dotted = Inr example_dotted_once \<and>
   clean_data sample example_dotted_once = Inr example_dotted_twice \<and>
   rows example_dotted = [[Str [97, 304, 98], Num 10, Str (ascii ''2024-01-17'')]] \<and>
   rows example_dotted_once = [[Str [65, 105, 775, 98], Num 10, Date (Timestamp 2024 1 17)]] \<and>
   rows example_dotted_twice = [[Str [65, 105, 775, 66], Num 10, Date (Timestamp 2024 1 17)]] \<and>
   example_dotted_twice \<noteq> example_dotted_once"
proof -
  have 1: "clean_data sample example_dotted = Inr example_dotted_once" by code_simp
  have 2: "clean_data sample example_dotted_once = Inr example_dotted_twice" by code_simp
  have 3: "rows example_dotted = [[Str [97, 304, 98], Num 10, Str (ascii ''2024-01-17'')]]"
    by (simp add: example_dotted_def)
  have 4: "rows example_dotted_once =
      [[Str [65, 105, 775, 98], Num 10, Date (Timestamp 2024 1 17)]]"
    by (simp add: example_dotted_once_def)
  have 5: "rows example_dotted_twice =
      [[Str [65, 105, 775, 66], Num 10, Date (Timestamp 2024 1 17)]]"
    by (simp add: example_dotted_twice_def)
  have 6: "example_dotted_twice \<noteq> example_dotted_once" by code_simp
  from 1 2 3 4 5 6 show ?thesis by (intro conjI)
qed

lemma datetime_columnD:
  assumes "datetime_column L"
  shows "length (to_datetime L dt cs) = length cs"
    and "c \<in> set (to_datetime L dt cs) \<Longrightarrow> c = Null \<or> (\<exists>t. c = Date t)"
    and "(\<forall>c \<in> set cs. \<exists>t. c = Date t) \<Longrightarrow> to_datetime L datetime64 cs = cs"
proof -
  from assms have 1: "length (to_datetime L dt cs) = length cs"
    and 2: "\<forall>c \<in> set (to_datetime L dt cs). conforms datetime64 c"
    and 3: "(\<forall>c \<in> set cs. conforms datetime64 c) \<longrightarrow> to_datetime L datetime64 cs = cs"
    unfolding datetime_column_def by blast+
  show "length (to_datetime L dt cs) = length cs" by (rule 1)
  show "c = Null \<or> (\<exists>t. c = Date t)" if "c \<in> set (to_datetime L dt cs)"
    using 2 that by (cases c) (auto simp: conforms_def)
  show "to_datetime L datetime64 cs = cs" if "\<forall>c \<in> set cs. \<exists>t. c = Date t"
  proof -
    from that have "\<forall>c \<in> set cs. conforms datetime64 c" by (auto simp: conforms_def)
    with 3 show ?thesis by blast
  qed
qed

lemma cleanedI:
  assumes "positions ''VENDOR'' (columns df) = [v]" "positions ''CHKSUBTOT'' (columns df) = [a]"
    "positions ''RUNDATE'' (columns df) = [d]" "wf_df df"
    "\<And>r. r \<in> set (rows df) \<Longrightarrow>
       (\<exists>s. r ! v = Str s) \<and> (\<exists>x. r ! a = Num x) \<and> (\<exists>t. r ! d = Date t)"
  shows "cleaned df"
  using assms by (fastforce simp: cleaned_def position_def)

lemma cleanedD:
  assumes "cleaned df"
  obtains v a d where "positions ''VENDOR'' (columns df) = [v]"
    "positions ''CHKSUBTOT'' (columns df) = [a]" "positions ''RUNDATE'' (columns df) = [d]"
    "wf_df df"
    "\<forall>r \<in> set (rows df). (\<exists>s. r ! v = Str s) \<and> (\<exists>x. r ! a = Num x) \<and> (\<exists>t. r ! d = Date t)"
proof -
  from assms obtain v a d where p: "position ''VENDOR'' df = Some v"
    "position ''CHKSUBTOT'' df = Some a" "position ''RUNDATE'' df = Some d"
    and w: "wf_df df"
    and r: "\<forall>r \<in> set (rows df).
             (case r ! v of Str s \<Rightarrow> True | _ \<Rightarrow> False) \<and>
             (case r ! a of Num x \<Rightarrow> True | _ \<Rightarrow> False) \<and>
             (case r ! d of Date t \<Rightarrow> True | _ \<Rightarrow> False)"
    by (auto simp: cleaned_def split: option.splits)
  have "(\<exists>s. r ! v = Str s) \<and> (\<exists>x. r ! a = Num x) \<and> (\<exists>t. r ! d = Date t)"
    if m: "r \<in> set (rows df)" for r
  proof -
    from r m have 1: "case r ! v of Str s \<Rightarrow> True | _ \<Rightarrow> False"
      and 2: "case r ! a of Num x \<Rightarrow> True | _ \<Rightarrow> False"
      and 3: "case r ! d of Date t \<Rightarrow> True | _ \<Rightarrow> False"
      by blast+
    from 1 have "\<exists>s. r ! v = Str s" by (cases "r ! v") simp_all
    moreover from 2 have "\<exists>x. r ! a = Num x" by (cases "r ! a") simp_all
    moreover from 3 have "\<exists>t. r ! d = Date t" by (cases "r ! d") simp_all
    ultimately show ?thesis by blast
  qed
  then have "\<forall>r \<in> set (rows df).
       (\<exists>s. r ! v = Str s) \<and> (\<exists>x. r ! a = Num x) \<and> (\<exists>t. r ! d = Date t)"
    by blast
  with p w that show ?thesis
    by (simp add: position_Some)
qed

text \<open>What \<open>clean_data\<close> returns is a cleaned table.\<close>

lemma clean_data_cleaned:
  assumes "wf_df df" and "typed_df df" and "datetime_column L" and "clean_data L df = Inr df'"
  shows "cleaned df'"
proof -
  from clean_data_rows [OF assms(1,4)] obtain v a d where
    v: "positions ''VENDOR'' (columns df') = [v]" and
    a: "positions ''CHKSUBTOT'' (columns df') = [a]" and
    d: "positions ''RUNDATE'' (columns df') = [d]"
    by blast
  have row: "length r' = length (columns df') \<and>
       (\<exists>s. r' ! v = Str s) \<and> (\<exists>x. r' ! a = Num x) \<and> (\<exists>t. r' ! d = Date t)"
    if "r' \<in> set (rows df')" for r'
  proof -
    from clean_data_row [OF assms(1,4) that v a d] obtain r t s where
      r: "r \<in> set (rows df)" "length r = length (columns df')" and
      t: "t \<in> set (to_datetime L (dtypes df ! d) (map (\<lambda>r. r ! d) (rows df)))"
         "t \<noteq> Null" "r' ! d = t" and
      l: "length r' = length (columns df')" and
      s: "r' ! v = Str (title L (strip L s))" and
      n: "r' ! a = to_numeric L (dtypes df ! a) (r ! a)" "r' ! a \<noteq> Null"
      by blast
    from datetime_columnD(2) [OF assms(3) t(1)] t(2,3) have "\<exists>t. r' ! d = Date t"
      by auto
    moreover from positions_neq(3) [OF v a] r(2) have "a < length r" by simp
    from typed_dfD [OF assms(2) r(1) this] n have "\<exists>x. r' ! a = Num x"
      by (auto dest: to_numeric_Num)
    ultimately show ?thesis using l s by simp
  qed
  show ?thesis
  proof (rule cleanedI [OF v a d])
    from row show "wf_df df'" by (simp add: wf_df_def)
    show "(\<exists>s. r ! v = Str s) \<and> (\<exists>x. r ! a = Num x) \<and> (\<exists>t. r ! d = Date t)"
      if "r \<in> set (rows df')" for r
      using row [OF that] by blast
  qed
qed

lemma setitem_same:
  assumes "dtypes df ! j = dt" and "\<And>r. r \<in> set (rows df) \<Longrightarrow> g (r ! j) = r ! j"
  shows "setitem j dt (map g (series j df)) df = df"
proof -
  have "map (\<lambda>r. r[j := g (r ! j)]) (rows df) = map (\<lambda>r. r) (rows df)"
    using assms(2) by (intro map_cong) simp_all
  then have "rows (setitem j dt (map g (series j df)) df) = rows df"
    by (simp add: rows_setitem_map)
  moreover have "(dtypes df)[j := dt] = dtypes df"
    unfolding assms(1) [symmetric] by (rule list_update_id)
  then have "dtypes (setitem j dt (map g (series j df)) df) = dtypes df"
    by (simp only: dtypes_setitem)
  moreover have "columns (setitem j dt (map g (series j df)) df) = columns df"
    by (rule columns_setitem)
  moreover have "dataframe.more (setitem j dt (map g (series j df)) df) = dataframe.more df"
    by (simp add: setitem_def)
  ultimately show ?thesis
    by (intro dataframe.equality)
qed

lemma dropna_same:
  assumes "ascii ` set labels \<subseteq> set (columns df)"
    and "\<And>r j name. r \<in> set (rows df) \<Longrightarrow> name \<in> set labels \<Longrightarrow>
           j \<in> set (positions name (columns df)) \<Longrightarrow> r ! j \<noteq> Null"
  shows "dropna labels df = Inr df"
proof -
  from assms(1) have "filter (\<lambda>name. positions name (columns df) = []) labels = []"
    by (auto simp: filter_empty_conv positions_Nil)
  moreover have "filter (\<lambda>r. \<forall>j \<in> set (concat (map (\<lambda>name. positions name (columns df)) labels)).
                        r ! j \<noteq> Null) (rows df) = rows df"
    using assms(2) by (auto simp: filter_id_conv)
  ultimately show ?thesis
    by (simp add: dropna_def)
qed

text \<open>\<open>clean_data\<close> returns a table as it is when the labels are normalized, the three
  columns have the dtypes that \<open>clean_data\<close> gives them, and every row has a vendor
  that is trimmed and in title case, a number as amount and a timestamp as run date.\<close>

lemma clean_data_fixpoint:
  assumes v: "positions ''VENDOR'' (columns df) = [v]"
    and a: "positions ''CHKSUBTOT'' (columns df) = [a]"
    and d: "positions ''RUNDATE'' (columns df) = [d]"
    and n: "map (replace_space \<circ> strip L) (columns df) = columns df"
    and t: "dtypes df ! v = object" "dtypes df ! a = numeric" "dtypes df ! d = datetime64"
    and rows: "\<forall>r \<in> set (rows df).
       (\<exists>s. r ! v = Str s \<and> title L (strip L s) = s) \<and> (\<exists>x. r ! a = Num x) \<and>
       (\<exists>t. r ! d = Date t)"
    and td: "datetime_column L"
  shows "clean_data L df = Inr df"
proof -
  from rows have row: "(\<exists>s. r ! v = Str s \<and> title L (strip L s) = s) \<and> (\<exists>x. r ! a = Num x) \<and>
      (\<exists>t. r ! d = Date t)" if "r \<in> set (rows df)" for r
    using that by blast
  from v a d have mem: "ascii ''VENDOR'' \<in> set (columns df)"
    "ascii ''CHKSUBTOT'' \<in> set (columns df)" "ascii ''RUNDATE'' \<in> set (columns df)"
    by (auto dest: positions_Cons)
  from n have 0: "normalize_columns L df = df"
    by (simp add: normalize_columns_def)
  have "\<forall>c \<in> set (series d df). \<exists>t. c = Date t"
    using row by (auto simp: series_def)
  from datetime_columnD(3) [OF td this] have
    "to_datetime L datetime64 (series d df) = map (\<lambda>c. c) (series d df)"
    by simp
  moreover have "setitem d datetime64 (map (\<lambda>c. c) (series d df)) df = df"
    by (rule setitem_same [OF t(3)]) simp
  ultimately have 1: "parse_rundate L df = Inr df"
    using mem d t(3) by (simp add: parse_rundate_def getitem_def)
  have u: "can_use_str object (series v df)"
  proof (cases "rows df")
    case Nil
    then show ?thesis by (simp add: can_use_str_def series_def)
  next
    case (Cons r rs)
    then have "r \<in> set (rows df)" by simp
    from row [OF this] obtain s where "r ! v = Str s" by blast
    with Cons show ?thesis by (simp add: can_use_str_def series_def)
  qed
  have "setitem v object (map (str_title L \<circ> str_strip L) (series v df)) df = df"
  proof (rule setitem_same [OF t(1)])
    fix r assume "r \<in> set (rows df)"
    from row [OF this] show "(str_title L \<circ> str_strip L) (r ! v) = r ! v"
      by (auto simp: str_title_def str_strip_def)
  qed
  then have 2: "clean_vendor L df = Inr df"
    using v u t(1) by (simp add: clean_vendor_def getitem_def)
  have 3: "dropna [''VENDOR'', ''CHKSUBTOT'', ''RUNDATE''] df = Inr df"
  proof (rule dropna_same)
    from mem show "ascii ` set [''VENDOR'', ''CHKSUBTOT'', ''RUNDATE''] \<subseteq> set (columns df)"
      by simp
    fix r j name
    assume "r \<in> set (rows df)" "name \<in> set [''VENDOR'', ''CHKSUBTOT'', ''RUNDATE'']"
      "j \<in> set (positions name (columns df))"
    with row [of r] v a d show "r ! j \<noteq> Null" by auto
  qed
  have "setitem a numeric (map (to_numeric L numeric) (series a df)) df = df"
    by (rule setitem_same [OF t(2)]) (simp add: to_numeric_def)
  then have 4: "coerce_amount L df = Inr df"
    using a t(2) by (simp add: coerce_amount_def getitem_def)
  have 5: "dropna [''CHKSUBTOT''] df = Inr df"
  proof (rule dropna_same)
    from mem show "ascii ` set [''CHKSUBTOT''] \<subseteq> set (columns df)" by simp
    fix r j name
    assume "r \<in> set (rows df)" "name \<in> set [''CHKSUBTOT'']"
      "j \<in> set (positions name (columns df))"
    with row [of r] a show "r ! j \<noteq> Null" by auto
  qed
  show ?thesis
    by (simp add: clean_data_def 0 1 2 3 4 5)
qed

lemma datetime_column_sample: "datetime_column sample"
  unfolding datetime_column_def
proof (intro allI conjI ballI impI)
  fix dt cs
  show "length (to_datetime sample dt cs) = length cs"
    by (simp add: sample_def iso_to_datetime_def)
  show "conforms datetime64 c" if "c \<in> set (to_datetime sample dt cs)" for c
    using that
    by (auto simp: sample_def iso_to_datetime_def conforms_def split: cell.splits option.splits if_splits)
  show "to_datetime sample datetime64 cs = cs" if "\<forall>c \<in> set cs. conforms datetime64 c"
  proof -
    have "map (\<lambda>c. case c of Date t \<Rightarrow> Date t | _ \<Rightarrow> Null) cs = map (\<lambda>c. c) cs"
      using that by (intro map_cong) (auto simp: conforms_def split: cell.splits)
    then show ?thesis by (simp add: sample_def iso_to_datetime_def)
  qed
qed

text \<open>Claim C4, amended. On a table whose vendor names are ASCII text, \<open>clean_data\<close> is
  idempotent: on the table it returned it returns the same table again. That table is
  \<open>cleaned\<close>, its column labels are normalized and its vendors trimmed and in title
  case, so no row is dropped and no cell changes. The hypotheses on the library are
  that its character tables have the ASCII rows of Python's, and that \<open>to_datetime\<close>
  yields timestamps or NaT and leaves a datetime64 column as it is.\<close>

theorem clean_data_idempotent:
  assumes "ascii_casing L" and "datetime_column L" and "wf_df df" and "typed_df df"
    and "\<forall>v. position ''VENDOR'' (normalize_columns L df) = Some v \<longrightarrow>
             (\<forall>r \<in> set (rows df). ascii_cell (r ! v))"
    and "clean_data L df = Inr df'"
  shows "clean_data L df' = Inr df' \<and> cleaned df'"
proof -
  from clean_data_rows [OF assms(3,6)] obtain v a d where
    v: "positions ''VENDOR'' (columns df') = [v]" and
    a: "positions ''CHKSUBTOT'' (columns df') = [a]" and
    d: "positions ''RUNDATE'' (columns df') = [d]" and
    c: "columns df' = map (replace_space \<circ> strip L) (columns df)" and
    t: "dtypes df' = (dtypes df)[d := datetime64, v := object, a := numeric]"
    by blast
  from assms(3,4,2,6) have cl: "cleaned df'" by (rule clean_data_cleaned)
  from v c have "position ''VENDOR'' (normalize_columns L df) = Some v"
    by (simp add: position_Some normalize_columns_def)
  with assms(5) have av: "\<forall>r \<in> set (rows df). ascii_cell (r ! v)" by blast
  from positions_neq [OF v a] positions_neq [OF v d] positions_neq [OF a d] have
    ne: "v \<noteq> a" "v \<noteq> d" "a \<noteq> d" and
    lt: "v < length (columns df')" "a < length (columns df')" "d < length (columns df')"
    by simp_all
  from assms(4) c have "length (dtypes df) = length (columns df')"
    by (simp add: typed_df_def)
  with lt ne t have ty: "dtypes df' ! v = object" "dtypes df' ! a = numeric"
    "dtypes df' ! d = datetime64"
    by simp_all
  have n: "map (replace_space \<circ> strip L) (columns df') = columns df'"
    unfolding c using normalize_idem [OF isspace_32 [OF assms(1)]] by (simp add: comp_def)
  have rows: "\<forall>r' \<in> set (rows df').
       (\<exists>s. r' ! v = Str s \<and> title L (strip L s) = s) \<and> (\<exists>x. r' ! a = Num x) \<and>
       (\<exists>t. r' ! d = Date t)"
  proof
    fix r' assume m: "r' \<in> set (rows df')"
    from clean_data_row [OF assms(3,6) m v a d] obtain r s where
      r: "r \<in> set (rows df)" and s: "r ! v = Str s" "r' ! v = Str (title L (strip L s))"
      by blast
    from av r s(1) have "is_ascii s" by (auto simp: ascii_cell_def)
    from title_strip_idem_ascii [OF assms(1) this] s(2) have
      "\<exists>s. r' ! v = Str s \<and> title L (strip L s) = s"
      by simp
    moreover from cl v a d m have "(\<exists>x. r' ! a = Num x) \<and> (\<exists>t. r' ! d = Date t)"
      by (elim cleanedD) auto
    ultimately show "(\<exists>s. r' ! v = Str s \<and> title L (strip L s) = s) \<and> (\<exists>x. r' ! a = Num x) \<and>
       (\<exists>t. r' ! d = Date t)"
      by simp
  qed
  from clean_data_fixpoint [OF v a d n ty rows assms(2)] cl show ?thesis by simp
qed

theorem clean_data_idempotent_witness:
  "ascii_casing sample \<and> datetime_column sample \<and> wf_df example_raw \<and> typed_df example_raw \<and>
   position ''VENDOR'' (normalize_columns sample example_raw) = Some 0 \<and>
   list_all (\<lambda>r. ascii_cell (r ! 0)) (rows example_raw) \<and>
   clean_data sample example_raw = Inr example_raw_cleaned \<and>
   clean_data sample example_raw_cleaned = Inr example_raw_cleaned \<and>
   cleaned example_raw_cleaned"
proof -
  have 1: "wf_df example_raw" by code_simp
  have 2: "typed_df example_raw" by code_simp
  have 3: "position ''VENDOR'' (normalize_columns sample example_raw) = Some 0" by code_simp
  have 4: "list_all (\<lambda>r. ascii_cell (r ! 0)) (rows example_raw)" by code_simp
  have 5: "clean_data sample example_raw = Inr example_raw_cleaned" by code_simp
  from 3 4 have 6: "\<forall>v. position ''VENDOR'' (normalize_columns sample example_raw) = Some v \<longrightarrow>
             (\<forall>r \<in> set (rows example_raw). ascii_cell (r ! v))"
    by (simp add: list_all_iff)
  from clean_data_idempotent [OF ascii_casing_sample datetime_column_sample 1 2 6 5]
    ascii_casing_sample datetime_column_sample 1 2 3 4 5
  show ?thesis by simp
qed

subsection \<open>Sorting and grouping\<close>

lemma mset_sort_values_desc: "mset (sort_values_desc s) = mset s"
  by (simp add: sort_values_desc_def)

lemma set_sort_values_desc: "set (sort_values_desc s) = set s"
  by (simp add: sort_values_desc_def)

lemma distinct_fst_sort_values_desc:
  "distinct (map fst (sort_values_desc s)) = distinct (map fst s)"
proof -
  have "mset (map fst (sort_values_desc s)) = mset (map fst s)"
    by (simp add: mset_sort_values_desc)
  then show ?thesis by (rule mset_eq_imp_distinct_iff)
qed

lemma sorted_sort_values_desc: "sorted (rev (map snd (sort_values_desc s)))"
  by (simp add: sort_values_desc_def rev_map [symmetric] sorted_sort_key)

lemma sum_list_sort_values_desc:
  fixes s :: "('k \<times> real) list"
  shows "sum_list (map snd (sort_values_desc s)) = sum_list (map snd s)"
proof -
  have "mset (map snd (sort_values_desc s)) = mset (map snd s)"
    by (simp add: mset_sort_values_desc)
  then have "sum_mset (mset (map snd (sort_values_desc s))) = sum_mset (mset (map snd s))"
    by simp
  then show ?thesis by (simp only: sum_mset_sum_list)
qed

lemma distinct_unique: "distinct (unique xs)" and set_unique: "set (unique xs) = set xs"
  by (simp_all add: unique_def)

lemma sum_list_delta:
  fixes y :: real
  assumes "distinct ks" and "k \<in> set ks"
  shows "sum_list (map (\<lambda>k'. if k = k' then y else 0) ks) = y"
proof -
  have "sum_list (map (\<lambda>k'. if k = k' then y else 0) ks) = sum (\<lambda>k'. if k = k' then y else 0) (set ks)"
    using assms(1) by (rule sum_list_distinct_conv_sum_set)
  also have "\<dots> = y"
    using assms(2) by simp
  finally show ?thesis .
qed

lemma sum_list_groups:
  fixes f :: "'a \<Rightarrow> real"
  assumes "distinct ks" and "g ` set xs \<subseteq> set ks"
  shows "sum_list (map (\<lambda>k. sum_list (map f (filter (\<lambda>x. g x = k) xs))) ks) = sum_list (map f xs)"
  using assms(2)
proof (induction xs)
  case Nil
  then show ?case by simp
next
  case (Cons x xs)
  have "sum_list (map (\<lambda>k. sum_list (map f (filter (\<lambda>x. g x = k) (x # xs)))) ks) =
        sum_list (map (\<lambda>k. (if g x = k then f x else 0) +
                             sum_list (map f (filter (\<lambda>x. g x = k) xs))) ks)"
    by (intro arg_cong [where f = sum_list] map_cong) simp_all
  also have "\<dots> = sum_list (map (\<lambda>k. if g x = k then f x else 0) ks) +
                   sum_list (map (\<lambda>k. sum_list (map f (filter (\<lambda>x. g x = k) xs))) ks)"
    by (rule sum_list_addf)
  also have "sum_list (map (\<lambda>k. if g x = k then f x else 0) ks) = f x"
    using assms(1) Cons.prems by (intro sum_list_delta) simp_all
  also have "sum_list (map (\<lambda>k. sum_list (map f (filter (\<lambda>x. g x = k) xs))) ks) = sum_list (map f xs)"
    using Cons.prems by (intro Cons.IH) simp
  finally show ?case by simp
qed

lemma groupby_sum_keys:
  "map fst (groupby_sum kvs) = sort (remdups (filter (\<lambda>k. k \<noteq> Null) (map fst kvs)))"
  by (simp add: groupby_sum_def comp_def)

lemma distinct_groupby_sum: "distinct (map fst (groupby_sum kvs))"
  by (simp add: groupby_sum_keys)

lemma set_groupby_sum:
  "(k, t) \<in> set (groupby_sum kvs) \<longleftrightarrow>
     k \<noteq> Null \<and> k \<in> fst ` set kvs \<and> t = nansum (map snd (filter (\<lambda>kv. fst kv = k) kvs))"
  by (auto simp: groupby_sum_def)

lemma sum_list_groupby_sum:
  assumes "Null \<notin> fst ` set kvs"
  shows "sum_list (map snd (groupby_sum kvs)) = nansum (map snd kvs)"
proof -
  let ?ks = "sort (remdups (filter (\<lambda>k. k \<noteq> Null) (map fst kvs)))"
  have "sum_list (map snd (groupby_sum kvs)) =
        sum_list (map (\<lambda>k. sum_list (map (number \<circ> snd) (filter (\<lambda>kv. fst kv = k) kvs))) ?ks)"
    by (simp add: groupby_sum_def nansum_def comp_def)
  also have "\<dots> = sum_list (map (number \<circ> snd) kvs)"
  proof (rule sum_list_groups)
    show "distinct ?ks" by simp
    from assms have "set (filter (\<lambda>k. k \<noteq> Null) (map fst kvs)) = fst ` set kvs"
      by force
    then show "fst ` set kvs \<subseteq> set ?ks" by simp
  qed
  finally show ?thesis by (simp add: nansum_def)
qed

lemma group_of_rows:
  "map snd (filter (\<lambda>kv. fst kv = k) (map (\<lambda>r. (r ! v, r ! a)) rs)) =
   map (\<lambda>r. r ! a) (filter (\<lambda>r. r ! v = k) rs)"
  by (induction rs) simp_all

subsection \<open>Totals and frequencies per vendor\<close>

lemma column_position: "positions name (columns df) = [j] \<Longrightarrow> column name df = Inr j"
  by (simp add: column_def)

lemma total_payments_by_vendor_eq:
  assumes "positions ''VENDOR'' (columns df) = [v]" and "positions ''CHKSUBTOT'' (columns df) = [a]"
  shows "total_payments_by_vendor df =
     Inr (take 20 (sort_values_desc (groupby_sum (map (\<lambda>r. (r ! v, r ! a)) (rows df)))),
          sort_values_desc (groupby_sum (map (\<lambda>r. (r ! v, r ! a)) (rows df))))"
  using assms by (simp add: total_payments_by_vendor_def column_position Let_def)

lemma set_totals:
  "(k, t) \<in> set (sort_values_desc (groupby_sum (map (\<lambda>r. (r ! v, r ! a)) rs))) \<longleftrightarrow>
     k \<noteq> Null \<and> k \<in> (\<lambda>r. r ! v) ` set rs \<and>
     t = sum_list (map (\<lambda>r. number (r ! a)) (filter (\<lambda>r. r ! v = k) rs))"
proof -
  have "fst ` set (map (\<lambda>r. (r ! v, r ! a)) rs) = (\<lambda>r. r ! v) ` set rs"
    by force
  then show ?thesis
    by (simp add: set_sort_values_desc set_groupby_sum group_of_rows nansum_def comp_def
        del: set_map)
qed

lemma cleaned_vendor_not_Null:
  assumes "cleaned df" and "positions ''VENDOR'' (columns df) = [v]"
  shows "Null \<notin> (\<lambda>r. r ! v) ` set (rows df)"
proof -
  from assms(1) obtain v' a d where "positions ''VENDOR'' (columns df) = [v']" and
    "\<forall>r \<in> set (rows df).
       (\<exists>s. r ! v' = Str s) \<and> (\<exists>x. r ! a = Num x) \<and> (\<exists>t. r ! d = Date t)"
    by (elim cleanedD)
  with assms(2) show ?thesis by force
qed

text \<open>Claim C5. On a cleaned table \<open>total_payments_by_vendor\<close> returns one entry per
  vendor of the table, none missing; the value of an entry is the sum of the amounts of
  the rows of that vendor; the entries are in descending order of their totals. What
  is printed is the first 20 entries; what is returned (and what the driver writes to
  \<open>total_payments_by_vendor.csv\<close>) is the whole list.\<close>

theorem total_payments_by_vendor_grouped:
  assumes "cleaned df"
  shows "\<exists>v a totals. position ''VENDOR'' df = Some v \<and> position ''CHKSUBTOT'' df = Some a \<and>
    total_payments_by_vendor df = Inr (take 20 totals, totals) \<and>
    distinct (map fst totals) \<and> set (map fst totals) = (\<lambda>r. r ! v) ` set (rows df) \<and>
    (\<forall>(k, t) \<in> set totals.
        t = sum_list (map (\<lambda>r. number (r ! a)) (filter (\<lambda>r. r ! v = k) (rows df)))) \<and>
    sorted (rev (map snd totals))"
proof -
  from assms obtain v a d where v: "positions ''VENDOR'' (columns df) = [v]" and
    a: "positions ''CHKSUBTOT'' (columns df) = [a]"
    by (elim cleanedD)
  let ?totals = "sort_values_desc (groupby_sum (map (\<lambda>r. (r ! v, r ! a)) (rows df)))"
  have 1: "total_payments_by_vendor df = Inr (take 20 ?totals, ?totals)"
    using v a by (rule total_payments_by_vendor_eq)
  have 2: "distinct (map fst ?totals)"
    by (simp add: distinct_fst_sort_values_desc distinct_groupby_sum)
  have 3: "set (map fst ?totals) = (\<lambda>r. r ! v) ` set (rows df)"
  proof -
    have "set (map fst ?totals) = {k. \<exists>t. (k, t) \<in> set ?totals}"
      by force
    also have "\<dots> = {k. k \<noteq> Null \<and> k \<in> (\<lambda>r. r ! v) ` set (rows df)}"
      by (simp only: set_totals) blast
    also have "\<dots> = (\<lambda>r. r ! v) ` set (rows df)"
      using cleaned_vendor_not_Null [OF assms v] by blast
    finally show ?thesis .
  qed
  have 4: "\<forall>(k, t) \<in> set ?totals.
        t = sum_list (map (\<lambda>r. number (r ! a)) (filter (\<lambda>r. r ! v = k) (rows df)))"
    by (auto simp only: set_totals)
  have 5: "sorted (rev (map snd ?totals))"
    by (rule sorted_sort_values_desc)
  from v a 1 2 3 4 5 show ?thesis
    unfolding position_Some by blast
qed

theorem total_payments_by_vendor_grouped_witness:
  "cleaned example_cleaned \<and>
   total_payments_by_vendor example_cleaned =
     Inr ([(Str (ascii ''X''), 300), (Str (ascii ''Acme Corp''), 50)], [(Str (ascii ''X''), 300), (Str (ascii ''Acme Corp''), 50)]) \<and>
   (\<exists>v a totals. position ''VENDOR'' example_cleaned = Some v \<and>
      position ''CHKSUBTOT'' example_cleaned = Some a \<and>
      total_payments_by_vendor example_cleaned = Inr (take 20 totals, totals) \<and>
      distinct (map fst totals) \<and>
      set (map fst totals) = (\<lambda>r. r ! v) ` set (rows example_cleaned) \<and>
      (\<forall>(k, t) \<in> set totals.
          t = sum_list (map (\<lambda>r. number (r ! a)) (filter (\<lambda>r. r ! v = k) (rows example_cleaned)))) \<and>
      sorted (rev (map snd totals)))"
proof -
  have c: "cleaned example_cleaned" by code_simp
  have e: "total_payments_by_vendor example_cleaned =
     Inr ([(Str (ascii ''X''), 300), (Str (ascii ''Acme Corp''), 50)], [(Str (ascii ''X''), 300), (Str (ascii ''Acme Corp''), 50)])"
    by code_simp
  from total_payments_by_vendor_grouped [OF c] c e show ?thesis by blast
qed

text \<open>Claim C3. On a cleaned table the values of the mapping that
  \<open>total_payments_by_vendor\<close> returns add up to the sum of the amount column. Amounts
  are exact reals here, so the two sums are equal; the tolerance of the claim covers
  the rounding of floating-point addition, which is not modelled.\<close>

theorem total_payments_sum_law:
  assumes "cleaned df"
  shows "\<exists>a printed totals. position ''CHKSUBTOT'' df = Some a \<and>
    total_payments_by_vendor df = Inr (printed, totals) \<and>
    sum_list (map snd totals) = sum_list (map (\<lambda>r. number (r ! a)) (rows df))"
proof -
  from assms obtain v a d where v: "positions ''VENDOR'' (columns df) = [v]" and
    a: "positions ''CHKSUBTOT'' (columns df) = [a]"
    by (elim cleanedD)
  let ?kvs = "map (\<lambda>r. (r ! v, r ! a)) (rows df)"
  let ?totals = "sort_values_desc (groupby_sum ?kvs)"
  have 1: "total_payments_by_vendor df = Inr (take 20 ?totals, ?totals)"
    using v a by (rule total_payments_by_vendor_eq)
  have "fst ` set ?kvs = (\<lambda>r. r ! v) ` set (rows df)"
    by force
  with cleaned_vendor_not_Null [OF assms v] have "Null \<notin> fst ` set ?kvs"
    by simp
  then have "sum_list (map snd (groupby_sum ?kvs)) = nansum (map snd ?kvs)"
    by (rule sum_list_groupby_sum)
  then have "sum_list (map snd ?totals) = sum_list (map (\<lambda>r. number (r ! a)) (rows df))"
    by (simp add: sum_list_sort_values_desc nansum_def comp_def)
  with a 1 show ?thesis
    unfolding position_Some by blast
qed

theorem total_payments_sum_law_witness:
  "cleaned example_cleaned \<and>
   total_payments_by_vendor example_cleaned =
     Inr ([(Str (ascii ''X''), 300), (Str (ascii ''Acme Corp''), 50)], [(Str (ascii ''X''), 300), (Str (ascii ''Acme Corp''), 50)]) \<and>
   sum_list (map snd [(Str (ascii ''X''), 300 :: real), (Str (ascii ''Acme Corp''), 50)]) = 350 \<and>
   (\<exists>a printed totals. position ''CHKSUBTOT'' example_cleaned = Some a \<and>
      total_payments_by_vendor example_cleaned = Inr (printed, totals) \<and>
      sum_list (map snd totals) = sum_list (map (\<lambda>r. number (r ! a)) (rows example_cleaned)))"
proof -
  have c: "cleaned example_cleaned" by code_simp
  have e: "total_payments_by_vendor example_cleaned =
     Inr ([(Str (ascii ''X''), 300), (Str (ascii ''Acme Corp''), 50)], [(Str (ascii ''X''), 300), (Str (ascii ''Acme Corp''), 50)])"
    by code_simp
  have s: "sum_list (map snd [(Str (ascii ''X''), 300 :: real), (Str (ascii ''Acme Corp''), 50)]) = 350"
    by simp
  from total_payments_sum_law [OF c] c e s show ?thesis by blast
qed

lemma set_value_counts:
  "(k, n) \<in> set (value_counts cs) \<longleftrightarrow>
     k \<noteq> Null \<and> k \<in> set cs \<and> n = length (filter (\<lambda>c. c = k) cs)"
  by (auto simp: value_counts_def set_sort_values_desc set_unique)

lemma distinct_value_counts: "distinct (map fst (value_counts cs))"
  by (simp add: value_counts_def distinct_fst_sort_values_desc comp_def distinct_unique)

lemma sorted_value_counts: "sorted (rev (map snd (value_counts cs)))"
  unfolding value_counts_def by (rule sorted_sort_values_desc)

lemma count_of_rows:
  "length (filter (\<lambda>c. c = k) (map (\<lambda>r. r ! v) rs)) = length (filter (\<lambda>r. r ! v = k) rs)"
  by (induction rs) simp_all

lemma payment_frequency_eq:
  assumes "positions ''VENDOR'' (columns df) = [v]"
  shows "payment_frequency df =
     Inr (take 20 (value_counts (map (\<lambda>r. r ! v) (rows df))),
          value_counts (map (\<lambda>r. r ! v) (rows df)))"
  using assms by (simp add: payment_frequency_def column_position Let_def series_def)

text \<open>Claim C6. On a cleaned table \<open>payment_frequency\<close> returns one entry per vendor,
  whose value is the number of rows of that vendor, in descending order of the counts.
  In particular, when the rows of vendor "X" are exactly two, with amounts 100 and 200,
  the total of "X" is 300 and its frequency is 2.\<close>

theorem payment_frequency_counts:
  assumes "cleaned df"
  shows "\<exists>v a freq totals.
    position ''VENDOR'' df = Some v \<and> position ''CHKSUBTOT'' df = Some a \<and>
    payment_frequency df = Inr (take 20 freq, freq) \<and>
    distinct (map fst freq) \<and> set (map fst freq) = (\<lambda>r. r ! v) ` set (rows df) \<and>
    (\<forall>(k, n) \<in> set freq. n = length (filter (\<lambda>r. r ! v = k) (rows df))) \<and>
    sorted (rev (map snd freq)) \<and>
    total_payments_by_vendor df = Inr (take 20 totals, totals) \<and>
    (\<forall>r1 r2. filter (\<lambda>r. r ! v = Str (ascii ''X'')) (rows df) = [r1, r2] \<and>
        r1 ! a = Num 100 \<and> r2 ! a = Num 200 \<longrightarrow>
        map_of totals (Str (ascii ''X'')) = Some 300 \<and> map_of freq (Str (ascii ''X'')) = Some 2)"
proof -
  from assms obtain v a d where v: "positions ''VENDOR'' (columns df) = [v]" and
    a: "positions ''CHKSUBTOT'' (columns df) = [a]"
    by (elim cleanedD)
  let ?cs = "map (\<lambda>r. r ! v) (rows df)"
  let ?freq = "value_counts ?cs"
  let ?totals = "sort_values_desc (groupby_sum (map (\<lambda>r. (r ! v, r ! a)) (rows df)))"
  have mem: "(k, n) \<in> set ?freq \<longleftrightarrow>
      k \<noteq> Null \<and> k \<in> (\<lambda>r. r ! v) ` set (rows df) \<and>
      n = length (filter (\<lambda>r. r ! v = k) (rows df))" for k n
    unfolding set_value_counts count_of_rows by simp
  have 1: "payment_frequency df = Inr (take 20 ?freq, ?freq)"
    using v by (rule payment_frequency_eq)
  have 2: "distinct (map fst ?freq)"
    by (rule distinct_value_counts)
  have 3: "set (map fst ?freq) = (\<lambda>r. r ! v) ` set (rows df)"
  proof -
    have "set (map fst ?freq) = {k. \<exists>n. (k, n) \<in> set ?freq}"
      by force
    also have "\<dots> = {k. k \<noteq> Null \<and> k \<in> (\<lambda>r. r ! v) ` set (rows df)}"
      by (simp only: mem) blast
    also have "\<dots> = (\<lambda>r. r ! v) ` set (rows df)"
      using cleaned_vendor_not_Null [OF assms v] by blast
    finally show ?thesis .
  qed
  have 4: "\<forall>(k, n) \<in> set ?freq. n = length (filter (\<lambda>r. r ! v = k) (rows df))"
    using mem by blast
  have 5: "sorted (rev (map snd ?freq))"
    by (rule sorted_value_counts)
  have 6: "total_payments_by_vendor df = Inr (take 20 ?totals, ?totals)"
    using v a by (rule total_payments_by_vendor_eq)
  have 7: "map_of ?totals (Str (ascii ''X'')) = Some 300 \<and> map_of ?freq (Str (ascii ''X'')) = Some 2"
    if x: "filter (\<lambda>r. r ! v = Str (ascii ''X'')) (rows df) = [r1, r2] \<and>
        r1 ! a = Num 100 \<and> r2 ! a = Num 200" for r1 r2
  proof -
    from x have "r1 \<in> set (filter (\<lambda>r. r ! v = Str (ascii ''X'')) (rows df))" by simp
    then have i: "Str (ascii ''X'') \<in> (\<lambda>r. r ! v) ` set (rows df)" by force
    from x i have "(Str (ascii ''X''), 300) \<in> set ?totals"
      by (simp add: set_totals number_def)
    moreover have "distinct (map fst ?totals)"
      by (simp add: distinct_fst_sort_values_desc distinct_groupby_sum)
    ultimately have t: "map_of ?totals (Str (ascii ''X'')) = Some 300" by simp
    from x i have "(Str (ascii ''X''), 2) \<in> set ?freq"
      by (simp add: mem)
    with 2 have "map_of ?freq (Str (ascii ''X'')) = Some 2" by simp
    with t show ?thesis by simp
  qed
  from v a 1 2 3 4 5 6 7 show ?thesis
    unfolding position_Some by blast
qed

theorem payment_frequency_counts_witness:
  "cleaned example_cleaned \<and>
   position ''VENDOR'' example_cleaned = Some 0 \<and> position ''CHKSUBTOT'' example_cleaned = Some 1 \<and>
   filter (\<lambda>r. r ! 0 = Str (ascii ''X'')) (rows example_cleaned) =
     [[Str (ascii ''X''), Num 100, Date (Timestamp 2024 1 15)], [Str (ascii ''X''), Num 200, Date (Timestamp 2024 2 15)]] \<and>
   payment_frequency example_cleaned =
     Inr ([(Str (ascii ''X''), 2), (Str (ascii ''Acme Corp''), 1)], [(Str (ascii ''X''), 2), (Str (ascii ''Acme Corp''), 1)]) \<and>
   (\<exists>freq totals. payment_frequency example_cleaned = Inr (take 20 freq, freq) \<and>
      total_payments_by_vendor example_cleaned = Inr (take 20 totals, totals) \<and>
      map_of totals (Str (ascii ''X'')) = Some 300 \<and> map_of freq (Str (ascii ''X'')) = Some 2)"
proof -
  have c: "cleaned example_cleaned" by code_simp
  have pv: "position ''VENDOR'' example_cleaned = Some 0"
    and pa: "position ''CHKSUBTOT'' example_cleaned = Some 1"
    by code_simp+
  have f: "filter (\<lambda>r. r ! 0 = Str (ascii ''X'')) (rows example_cleaned) =
     [[Str (ascii ''X''), Num 100, Date (Timestamp 2024 1 15)], [Str (ascii ''X''), Num 200, Date (Timestamp 2024 2 15)]]"
    by code_simp
  have e: "payment_frequency example_cleaned =
     Inr ([(Str (ascii ''X''), 2), (Str (ascii ''Acme Corp''), 1)], [(Str (ascii ''X''), 2), (Str (ascii ''Acme Corp''), 1)])"
    by code_simp
  from payment_frequency_counts [OF c] obtain v a freq totals where
    "position ''VENDOR'' example_cleaned = Some v" "position ''CHKSUBTOT'' example_cleaned = Some a"
    and pf: "payment_frequency example_cleaned = Inr (take 20 freq, freq)"
    and tp: "total_payments_by_vendor example_cleaned = Inr (take 20 totals, totals)"
    and sc: "\<forall>r1 r2. filter (\<lambda>r. r ! v = Str (ascii ''X'')) (rows example_cleaned) = [r1, r2] \<and>
        r1 ! a = Num 100 \<and> r2 ! a = Num 200 \<longrightarrow>
        map_of totals (Str (ascii ''X'')) = Some 300 \<and> map_of freq (Str (ascii ''X'')) = Some 2"
    by blast
  with pv pa have "v = 0" "a = 1" by simp_all
  with sc f have "map_of totals (Str (ascii ''X'')) = Some 300 \<and> map_of freq (Str (ascii ''X'')) = Some 2"
    by simp
  with c pv pa f e pf tp show ?thesis by blast
qed

subsection \<open>The percentile threshold\<close>

lemma numbers_map_Num: "numbers (map Num xs) = xs"
  by (induction xs) (simp_all add: numbers_def)

lemma quantile_spec_percentile:
  assumes "xs \<noteq> []" and "0 \<le> q" and "q \<le> 1"
  shows "quantile q (map Num xs) = Some (spec_percentile (100 * q) xs)"
proof -
  let ?n = "length xs"
  let ?s = "sort xs"
  let ?h = "q * real (?n - 1)"
  let ?lo = "nat \<lfloor>?h\<rfloor>"
  from assms(1) have n: "0 < ?n" by simp
  from assms(2) have h0: "0 \<le> ?h" by simp
  from assms(2,3) have h1: "?h \<le> real (?n - 1)"
    by (simp add: mult_left_le_one_le)
  from h0 have f0: "0 \<le> \<lfloor>?h\<rfloor>" by simp
  then have lo: "real ?lo = of_int \<lfloor>?h\<rfloor>" by simp
  have sn: "sort xs \<noteq> []"
  proof
    assume "sort xs = []"
    then have "length (sort xs) = 0" by (simp only: list.size)
    with n show False by simp
  qed
  have q: "quantile q (map Num xs) =
      Some (?s ! ?lo + (?s ! min (?lo + 1) (?n - 1) - ?s ! ?lo) * (?h - real ?lo))"
    using sn by (simp add: quantile_def numbers_map_Num Let_def)
  have p: "spec_percentile (100 * q) xs =
      ?s ! ?lo + (?h - of_int \<lfloor>?h\<rfloor>) * (?s ! nat \<lceil>?h\<rceil> - ?s ! ?lo)"
    by (simp add: spec_percentile_def Let_def)
  show ?thesis
  proof (cases "?h = of_int \<lfloor>?h\<rfloor>")
    case True
    then have "?h - real ?lo = 0" "?h - of_int \<lfloor>?h\<rfloor> = 0"
      using lo by simp_all
    then show ?thesis
      unfolding q p by simp
  next
    case False
    have "of_int \<lfloor>?h\<rfloor> \<le> ?h" by (rule of_int_floor_le)
    moreover from False have "of_int \<lfloor>?h\<rfloor> \<noteq> ?h" by (rule not_sym)
    ultimately have lt: "of_int \<lfloor>?h\<rfloor> < ?h" by (rule le_neq_trans)
    have c: "\<lceil>?h\<rceil> = \<lfloor>?h\<rfloor> + 1"
      by (subst ceiling_altdef) (simp only: False if_False)
    with f0 have nc: "nat \<lceil>?h\<rceil> = ?lo + 1"
      by (simp add: nat_add_distrib)
    from lt h1 have "of_int \<lfloor>?h\<rfloor> < real (?n - 1)" by linarith
    then have "\<lfloor>?h\<rfloor> < int (?n - 1)"
      by (metis of_int_less_iff of_int_of_nat_eq)
    with f0 have "?lo + 1 \<le> ?n - 1" by linarith
    then have m: "min (?lo + 1) (?n - 1) = ?lo + 1" by (rule min_absorb1)
    show ?thesis
      unfolding q p m nc lo by (simp add: mult.commute)
  qed
qed

lemma cleaned_amounts:
  assumes "cleaned df" and "positions ''CHKSUBTOT'' (columns df) = [a]"
  shows "\<forall>r \<in> set (rows df). r ! a = Num (number (r ! a))"
proof -
  from assms(1) obtain v a' d where "positions ''CHKSUBTOT'' (columns df) = [a']" and
    "\<forall>r \<in> set (rows df).
       (\<exists>s. r ! v = Str s) \<and> (\<exists>x. r ! a' = Num x) \<and> (\<exists>t. r ! d = Date t)"
    by (elim cleanedD)
  with assms(2) show ?thesis by (fastforce simp: number_def)
qed

text \<open>Claim C2. On a cleaned table with at least one row, the threshold of
  \<open>detect_anomalies\<close> is the 99th percentile of the amount column by linear
  interpolation between order statistics (\<open>spec_percentile\<close>), and the function returns
  the table restricted to exactly the rows whose amount is strictly above it: every
  such row, in order, and no row at or below the threshold.\<close>

theorem detect_anomalies_percentile:
  assumes "cleaned df" and "rows df \<noteq> []"
  shows "\<exists>a threshold outliers. position ''CHKSUBTOT'' df = Some a \<and>
     threshold = spec_percentile 99 (map (\<lambda>r. number (r ! a)) (rows df)) \<and>
     outliers = filter (\<lambda>r. threshold < number (r ! a)) (rows df) \<and>
     set outliers = {r \<in> set (rows df). threshold < number (r ! a)} \<and>
     detect_anomalies df = Inr ((Some threshold, length outliers), df\<lparr>rows := outliers\<rparr>)"
proof -
  from assms(1) obtain v a d where a: "positions ''CHKSUBTOT'' (columns df) = [a]"
    by (elim cleanedD)
  let ?xs = "map (\<lambda>r. number (r ! a)) (rows df)"
  let ?t = "spec_percentile 99 ?xs"
  let ?out = "filter (\<lambda>r. ?t < number (r ! a)) (rows df)"
  note num = cleaned_amounts [OF assms(1) a]
  have "map (\<lambda>r. r ! a) (rows df) = map (\<lambda>r. Num (number (r ! a))) (rows df)"
    using num by (intro map_cong) simp_all
  then have s: "series a df = map Num ?xs"
    by (simp add: series_def comp_def)
  from assms(2) have "?xs \<noteq> []" by simp
  then have "quantile (99 / 100) (map Num ?xs) = Some (spec_percentile (100 * (99 / 100)) ?xs)"
    by (rule quantile_spec_percentile) simp_all
  then have q: "quantile (99 / 100) (series a df) = Some ?t"
    by (simp add: s)
  have g: "gt (r ! a) (Some ?t) = (?t < number (r ! a))" if "r \<in> set (rows df)" for r
  proof -
    from num that have "r ! a = Num (number (r ! a))" by blast
    then have "gt (r ! a) (Some ?t) = gt (Num (number (r ! a))) (Some ?t)" by simp
    then show ?thesis by (simp add: gt_def)
  qed
  have f: "filter (\<lambda>r. gt (r ! a) (Some ?t)) (rows df) = ?out"
    using g by (intro filter_cong) simp_all
  have "detect_anomalies df = Inr ((Some ?t, length ?out), df\<lparr>rows := ?out\<rparr>)"
    by (simp add: detect_anomalies_def column_position [OF a] q f del: length_filter_less)
  moreover have "set ?out = {r \<in> set (rows df). ?t < number (r ! a)}"
    by simp
  ultimately show ?thesis
    using a unfolding position_Some by blast
qed

theorem detect_anomalies_percentile_witness:
  "cleaned example_eleven \<and> rows example_eleven \<noteq> [] \<and>
   (\<exists>a threshold outliers. position ''CHKSUBTOT'' example_eleven = Some a \<and>
     threshold = spec_percentile 99 (map (\<lambda>r. number (r ! a)) (rows example_eleven)) \<and>
     outliers = filter (\<lambda>r. threshold < number (r ! a)) (rows example_eleven) \<and>
     set outliers = {r \<in> set (rows example_eleven). threshold < number (r ! a)} \<and>
     detect_anomalies example_eleven =
       Inr ((Some threshold, length outliers), example_eleven\<lparr>rows := outliers\<rparr>)) \<and>
   detect_anomalies example_eleven =
     Inr ((Some (109 / 10), 1),
          example_eleven\<lparr>rows := [[Str (ascii ''V''), Num 11, Date (Timestamp 2024 1 1)]]\<rparr>)"
proof -
  have c: "cleaned example_eleven" by code_simp
  have n: "rows example_eleven \<noteq> []" by code_simp
  have e: "detect_anomalies example_eleven =
     Inr ((Some (109 / 10), 1),
          example_eleven\<lparr>rows := [[Str (ascii ''V''), Num 11, Date (Timestamp 2024 1 1)]]\<rparr>)"
    by code_simp
  from detect_anomalies_percentile [OF c n] c n e show ?thesis by blast
qed

subsection \<open>The vendor by department cross-tabulation\<close>







end
